theory Spec2Isabelle
  imports Main "HOL-Library.Multiset" "HOL-Library.Char_ord" "HOL-Library.List_Lexorder"
    "HOL-Library.Product_Lexorder"
begin

section \<open>Python values and dictionaries\<close>

text \<open>
  The watcher (\<^verbatim>\<open>ugs_discord_bot.py\<close>) works on decoded JSON. A field of an
  override record holds a scalar: null, a boolean, an integer or a string (strings are
  byte sequences here, UTF-8 for anything beyond ASCII; floating point numbers are left
  out). An exception that the source can raise is a value of \<open>py_error\<close>, and a
  function that can raise returns \<open>py_error + 'a\<close>.
\<close>

datatype py_error = ValueError | KeyError | OSError

datatype scalar = SNone | SBool bool | SInt int | SStr string

text \<open>
  A Python \<^verbatim>\<open>dict\<close> with string keys is an association list in insertion order;
  the binding that counts for a key is the first one, as \<open>map_of\<close> reads it.
  \<open>dict_set d k v\<close> is \<^verbatim>\<open>d[k] = v\<close>: an existing key keeps its place and
  takes the new value, a new key goes to the end.
\<close>

type_synonym 'v dict = "(string \<times> 'v) list"

type_synonym entry = "scalar dict"

definition dict_keys :: "'v dict \<Rightarrow> string list" where
  "dict_keys d = remdups (map fst d)"

fun dict_set :: "'v dict \<Rightarrow> string \<Rightarrow> 'v \<Rightarrow> 'v dict" where
  "dict_set [] k v = [(k, v)]"
| "dict_set ((k', v') # d) k v =
     (if k' = k then (k, v) # d else (k', v') # dict_set d k v)"

text \<open>\<^verbatim>\<open>entry.get(k)\<close>, with \<^verbatim>\<open>None\<close> for a missing key.\<close>

definition entry_get :: "entry \<Rightarrow> string \<Rightarrow> scalar" where
  "entry_get e k = (case map_of e k of None \<Rightarrow> SNone | Some v \<Rightarrow> v)"

text \<open>Truth value of a scalar, as \<^verbatim>\<open>if x\<close> and \<^verbatim>\<open>x or y\<close> test it.\<close>

fun truthy :: "scalar \<Rightarrow> bool" where
  "truthy SNone = False"
| "truthy (SBool b) = b"
| "truthy (SInt i) = (i \<noteq> 0)"
| "truthy (SStr s) = (s \<noteq> [])"

definition py_or :: "scalar \<Rightarrow> scalar \<Rightarrow> scalar" where
  "py_or x y = (if truthy x then x else y)"

text \<open>\<^verbatim>\<open>str(x)\<close>: decimal digits for an integer, the string itself for a string.\<close>

definition digit_char :: "nat \<Rightarrow> char" where
  "digit_char d = ''0123456789'' ! d"

fun str_nat :: "nat \<Rightarrow> string" where
  "str_nat n = (if n < 10 then [digit_char n] else str_nat (n div 10) @ [digit_char (n mod 10)])"

declare str_nat.simps [simp del]

definition str_int :: "int \<Rightarrow> string" where
  "str_int i = (if i < 0 then CHR ''-'' # str_nat (nat (- i)) else str_nat (nat i))"

fun py_str :: "scalar \<Rightarrow> string" where
  "py_str SNone = ''None''"
| "py_str (SBool b) = (if b then ''True'' else ''False'')"
| "py_str (SInt i) = str_int i"
| "py_str (SStr s) = s"

section \<open>Normalization\<close>

definition DUE_KEYS :: "string list" where
  "DUE_KEYS = [''due_at'', ''unlock_at'', ''lock_at'', ''title'', ''base'']"

text \<open>
  \<^verbatim>\<open>normalize_due_entry\<close>: the loop over \<^verbatim>\<open>DUE_KEYS\<close> that fills \<^verbatim>\<open>out\<close>.
\<close>

definition normalize_due_entry :: "entry \<Rightarrow> entry" where
  "normalize_due_entry e = foldl (\<lambda>out k. dict_set out k (entry_get e k)) [] DUE_KEYS"

text \<open>
  \<^verbatim>\<open>sort_key_due\<close>: the tuple that orders the entries of one quiz. Python compares
  tuples lexicographically and strings by code point, which \<open>HOL-Library\<close> provides for
  pairs and for lists of characters.
\<close>

definition sort_key_due :: "entry \<Rightarrow> string \<times> int \<times> string \<times> string \<times> string" where
  "sort_key_due e =
     (py_str (py_or (entry_get e ''title'') (SStr '''')),
      (if truthy (entry_get e ''base'') then 1 else 0),
      py_str (py_or (entry_get e ''due_at'') (SStr '''')),
      py_str (py_or (entry_get e ''unlock_at'') (SStr '''')),
      py_str (py_or (entry_get e ''lock_at'') (SStr '''')))"

section \<open>Indexing a payload\<close>

text \<open>
  One element of \<^verbatim>\<open>quiz_assignment_overrides\<close>: \<open>quiz_id\<close> is \<open>None\<close> when the
  key is absent (\<open>Some SNone\<close> is an explicit null), \<open>due_dates\<close> is \<open>None\<close> when the
  key is absent or null. The payload is the decoded JSON object; its list is \<open>None\<close>
  when the key is absent.
\<close>

record item =
  quiz_id :: "scalar option"
  due_dates :: "entry list option"

record payload =
  quiz_assignment_overrides :: "item list option"

type_synonym snapshot = "entry list dict"

text \<open>The body of the loop of \<^verbatim>\<open>normalize_payload_to_index\<close>, then the loop.\<close>

definition index_item :: "snapshot \<Rightarrow> item \<Rightarrow> snapshot" where
  "index_item out itm =
     (let qid = (case quiz_id itm of None \<Rightarrow> SNone | Some q \<Rightarrow> q) in
      if qid = SNone then out
      else
        let due = (case due_dates itm of None \<Rightarrow> [] | Some ds \<Rightarrow> ds);
            norm_list = map normalize_due_entry due;
            norm_list = sort_key sort_key_due norm_list
        in dict_set out (py_str qid) norm_list)"

definition normalize_payload_to_index :: "payload \<Rightarrow> snapshot" where
  "normalize_payload_to_index data =
     (let arr = (case quiz_assignment_overrides data of None \<Rightarrow> [] | Some a \<Rightarrow> a)
      in foldl index_item [] arr)"

text \<open>
  What one element contributes to the index: its identifier (\<open>SNone\<close> when the key
  is absent or null) and its group, the normalized entries in sorted order.
\<close>

definition item_qid :: "item \<Rightarrow> scalar" where
  "item_qid itm = (case quiz_id itm of None \<Rightarrow> SNone | Some q \<Rightarrow> q)"

definition item_group :: "item \<Rightarrow> entry list" where
  "item_group itm =
     sort_key sort_key_due
       (map normalize_due_entry (case due_dates itm of None \<Rightarrow> [] | Some ds \<Rightarrow> ds))"

definition payload_items :: "payload \<Rightarrow> item list" where
  "payload_items data = (case quiz_assignment_overrides data of None \<Rightarrow> [] | Some a \<Rightarrow> a)"

text \<open>
  The order of a group as the specification words it: title, then the is-base flag
  descending (base entries first), then the three timestamps as strings.
\<close>

definition spec_sort_key_due :: "entry \<Rightarrow> string \<times> int \<times> string \<times> string \<times> string" where
  "spec_sort_key_due e =
     (py_str (py_or (entry_get e ''title'') (SStr '''')),
      (if truthy (entry_get e ''base'') then 0 else 1),
      py_str (py_or (entry_get e ''due_at'') (SStr '''')),
      py_str (py_or (entry_get e ''unlock_at'') (SStr '''')),
      py_str (py_or (entry_get e ''lock_at'') (SStr '''')))"

section \<open>Loading the snapshot\<close>

text \<open>
  The state of the store as \<^verbatim>\<open>load_snapshot\<close> meets it. The call
  \<^verbatim>\<open>SNAPSHOT_FILE.exists()\<close> raises (\<open>pathlib\<close> passes on an \<^verbatim>\<open>OSError\<close> such as
  \<^verbatim>\<open>PermissionError\<close>), or answers that the file is missing, or answers that it is
  there; then \<^verbatim>\<open>read_text()\<close> raises or gives the text.

  \<^verbatim>\<open>json.loads\<close> is a parameter. It raises, or it returns the decoded value: a
  snapshot, or \<open>Other\<close>, which stands for every JSON value that is not a mapping
  from identifiers to groups (\<^verbatim>\<open>None\<close>, a list, a number, a string, a mapping of
  another shape). The empty dict \<^verbatim>\<open>{}\<close> is \<open>Snapshot []\<close>.
\<close>

datatype file_state = ExistsRaises py_error | Missing | Present "py_error + string"

datatype loaded = Snapshot snapshot | Other

definition load_snapshot ::
  "(string \<Rightarrow> py_error + loaded) \<Rightarrow> file_state \<Rightarrow> py_error + loaded" where
  "load_snapshot loads f =
     (case f of
        ExistsRaises e \<Rightarrow> Inl e
      | Missing \<Rightarrow> Inr (Snapshot [])
      | Present r \<Rightarrow>
          (case (case r of Inl e \<Rightarrow> Inl e | Inr t \<Rightarrow> loads t) of
             Inl e \<Rightarrow> Inr (Snapshot [])
           | Inr v \<Rightarrow> Inr v))"

section \<open>Sets of identifiers and their numeric order\<close>

text \<open>
  Python does not fix the order in which a \<^verbatim>\<open>set\<close> is iterated. A set is a
  duplicate-free list here, and every iteration over a set goes through a parameter
  \<open>iter\<close> that may permute it; \<open>set_order iter\<close> says that \<open>iter\<close> only permutes.
\<close>

definition set_order :: "(string list \<Rightarrow> string list) \<Rightarrow> bool" where
  "set_order iter \<longleftrightarrow> (\<forall>xs. mset (iter xs) = mset xs)"

definition set_diff :: "string list \<Rightarrow> string list \<Rightarrow> string list" where
  "set_diff xs ys = filter (\<lambda>k. k \<notin> set ys) xs"

definition set_inter :: "string list \<Rightarrow> string list \<Rightarrow> string list" where
  "set_inter xs ys = filter (\<lambda>k. k \<in> set ys) xs"

definition set_union :: "string list \<Rightarrow> string list \<Rightarrow> string list" where
  "set_union xs ys = remdups (xs @ ys)"

text \<open>
  \<^verbatim>\<open>int(s)\<close>, with \<open>None\<close> for \<^verbatim>\<open>ValueError\<close>. On ASCII text (\<open>ascii_int\<close>) the
  white space around the number is dropped (tab, line feed, vertical tab, form feed,
  carriage return and space, nothing else), one sign is allowed, then come decimal
  digits with single underscores between digits. On text with a character beyond
  ASCII, \<^verbatim>\<open>int\<close> also takes the digits and spaces of other scripts; what it gives
  there is the parameter \<open>int_unicode\<close> of \<open>py_int\<close>. (The interpreter's limit on
  the number of digits is a setting and is not modelled.)
\<close>

definition is_space :: "char \<Rightarrow> bool" where
  "is_space c \<longleftrightarrow> c \<in> set [CHR 0x09, CHR 0x0A, CHR 0x0B, CHR 0x0C, CHR 0x0D, CHR 0x20]"

definition is_ascii :: "string \<Rightarrow> bool" where
  "is_ascii s = list_all (\<lambda>c. (of_char c :: nat) < 128) s"

definition strip :: "string \<Rightarrow> string" where
  "strip s = rev (dropWhile is_space (rev (dropWhile is_space s)))"

definition digit_val :: "char \<Rightarrow> nat option" where
  "digit_val c = (if CHR ''0'' \<le> c \<and> c \<le> CHR ''9'' then Some (of_char c - 48) else None)"

definition is_digit :: "char \<Rightarrow> bool" where
  "is_digit c \<longleftrightarrow> (\<exists>d < 10. c = digit_char d)"

fun digits_val :: "nat \<Rightarrow> string \<Rightarrow> nat option" where
  "digits_val acc [] = Some acc"
| "digits_val acc (c # cs) =
     (if c = CHR ''_'' then
        (case cs of
           [] \<Rightarrow> None
         | d # ds \<Rightarrow>
             (case digit_val d of None \<Rightarrow> None | Some v \<Rightarrow> digits_val (acc * 10 + v) ds))
      else (case digit_val c of None \<Rightarrow> None | Some v \<Rightarrow> digits_val (acc * 10 + v) cs))"

definition parse_nat :: "string \<Rightarrow> nat option" where
  "parse_nat s =
     (case s of
        [] \<Rightarrow> None
      | c # cs \<Rightarrow> (case digit_val c of None \<Rightarrow> None | Some v \<Rightarrow> digits_val v cs))"

definition ascii_int :: "string \<Rightarrow> int option" where
  "ascii_int s =
     (let t = strip s in
      case t of
        [] \<Rightarrow> None
      | c # cs \<Rightarrow>
          if c = CHR ''-'' then map_option (\<lambda>n. - int n) (parse_nat cs)
          else if c = CHR ''+'' then map_option int (parse_nat cs)
          else map_option int (parse_nat t))"

definition py_int :: "(string \<Rightarrow> int option) \<Rightarrow> string \<Rightarrow> int option" where
  "py_int int_unicode s = (if is_ascii s then ascii_int s else int_unicode s)"

text \<open>
  \<^verbatim>\<open>sorted(s, key=int)\<close>: the keys are computed first, so one identifier that does
  not parse raises; the sort is stable.
\<close>

definition sorted_by_int ::
  "(string \<Rightarrow> int option) \<Rightarrow> string list \<Rightarrow> py_error + string list" where
  "sorted_by_int int_unicode xs =
     (if list_all (\<lambda>x. py_int int_unicode x \<noteq> None) xs
      then Inr (sort_key (\<lambda>x. the (py_int int_unicode x)) xs)
      else Inl ValueError)"

text \<open>
  An identifier is the string form of an integer when it is what \<^verbatim>\<open>str\<close> prints for
  the integer it parses to. Such an identifier is ASCII text.
\<close>

definition canonical_id :: "string \<Rightarrow> bool" where
  "canonical_id s = (case ascii_int s of None \<Rightarrow> False | Some n \<Rightarrow> str_int n = s)"

definition canonical_ids :: "snapshot \<Rightarrow> bool" where
  "canonical_ids snap = list_all canonical_id (dict_keys snap)"

section \<open>The differ\<close>

text \<open>
  Python's \<^verbatim>\<open>==\<close>: a boolean is the integer 0 or 1, so \<^verbatim>\<open>True == 1\<close>; two dicts
  are equal when they have the same keys and equal values, in any order.
\<close>

fun num_of :: "scalar \<Rightarrow> int option" where
  "num_of (SBool b) = Some (if b then 1 else 0)"
| "num_of (SInt i) = Some i"
| "num_of SNone = None"
| "num_of (SStr s) = None"

definition py_eq :: "scalar \<Rightarrow> scalar \<Rightarrow> bool" where
  "py_eq x y =
     (case (num_of x, num_of y) of
        (Some m, Some n) \<Rightarrow> m = n
      | (None, None) \<Rightarrow> x = y
      | _ \<Rightarrow> False)"

definition dict_eq :: "entry \<Rightarrow> entry \<Rightarrow> bool" where
  "dict_eq l r \<longleftrightarrow>
     set (dict_keys l) = set (dict_keys r) \<and>
     list_all (\<lambda>k. py_eq (entry_get l k) (entry_get r k)) (dict_keys l)"

text \<open>
  The values a diff holds: a field's scalar, or a whole entry; \<^verbatim>\<open>None\<close> is
  \<open>Scalar SNone\<close>. \<open>entry_at a i\<close> is \<^verbatim>\<open>a[i] if i < len(a) else None\<close>.
\<close>

datatype pyval = Scalar scalar | Dict entry

type_synonym field_diffs = "(pyval \<times> pyval) dict"

type_synonym diffs = "(nat \<times> field_diffs) list"

text \<open>Python's \<^verbatim>\<open>==\<close> on the values a diff holds.\<close>

definition val_eq :: "pyval \<Rightarrow> pyval \<Rightarrow> bool" where
  "val_eq x y =
     (case (x, y) of
        (Scalar s, Scalar t) \<Rightarrow> py_eq s t
      | (Dict l, Dict r) \<Rightarrow> dict_eq l r
      | _ \<Rightarrow> False)"

definition opt_val :: "entry option \<Rightarrow> pyval" where
  "opt_val x = (case x of None \<Rightarrow> Scalar SNone | Some e \<Rightarrow> Dict e)"

definition entry_at :: "entry list \<Rightarrow> nat \<Rightarrow> entry option" where
  "entry_at a i = (if i < length a then Some (a ! i) else None)"

definition opt_eq :: "entry option \<Rightarrow> entry option \<Rightarrow> bool" where
  "opt_eq left right =
     (case (left, right) of
        (None, None) \<Rightarrow> True
      | (Some l, Some r) \<Rightarrow> dict_eq l r
      | _ \<Rightarrow> False)"

definition ENTRY :: string where
  "ENTRY = ''<entry>''"

text \<open>
  \<^verbatim>\<open>list_diff\<close>. \<open>entry_diff\<close> builds \<^verbatim>\<open>field_diffs\<close> for one position,
  \<open>list_diff_step\<close> is the body of the loop over \<^verbatim>\<open>range(maxlen)\<close>.
\<close>

definition entry_diff ::
  "(string list \<Rightarrow> string list) \<Rightarrow> entry option \<Rightarrow> entry option \<Rightarrow> field_diffs" where
  "entry_diff iter left right =
     (case (left, right) of
        (Some l, Some r) \<Rightarrow>
          (let keys = iter (set_union (dict_keys l) (dict_keys r)) in
           foldl (\<lambda>fd k.
                    if \<not> py_eq (entry_get l k) (entry_get r k)
                    then dict_set fd k (Scalar (entry_get l k), Scalar (entry_get r k))
                    else fd)
             [] keys)
      | _ \<Rightarrow> dict_set [] ENTRY (opt_val left, opt_val right))"

definition list_diff_step ::
  "(string list \<Rightarrow> string list) \<Rightarrow> entry list \<Rightarrow> entry list \<Rightarrow> diffs \<Rightarrow> nat \<Rightarrow> diffs" where
  "list_diff_step iter a b ds i =
     (let left = entry_at a i; right = entry_at b i in
      if opt_eq left right then ds
      else
        let fd = entry_diff iter left right
        in if fd \<noteq> [] then ds @ [(i, fd)] else ds)"

definition list_diff ::
  "(string list \<Rightarrow> string list) \<Rightarrow> entry list \<Rightarrow> entry list \<Rightarrow> diffs" where
  "list_diff iter a b =
     (let maxlen = max (length a) (length b)
      in foldl (list_diff_step iter a b) [] [0..<maxlen])"

text \<open>
  \<^verbatim>\<open>compute_changes_quiz\<close>. \<open>dict_index d k\<close> is \<^verbatim>\<open>d[k]\<close>, which raises
  \<^verbatim>\<open>KeyError\<close> on a missing key; \<open>changed_loop\<close> is the third loop.
\<close>

definition dict_index :: "'v dict \<Rightarrow> string \<Rightarrow> py_error + 'v" where
  "dict_index d k = (case map_of d k of None \<Rightarrow> Inl KeyError | Some v \<Rightarrow> Inr v)"

type_synonym changed = "(string \<times> diffs) list"

fun changed_loop ::
  "(string list \<Rightarrow> string list) \<Rightarrow> snapshot \<Rightarrow> snapshot \<Rightarrow> changed \<Rightarrow> string list
     \<Rightarrow> py_error + changed" where
  "changed_loop iter old_idx new_idx acc [] = Inr acc"
| "changed_loop iter old_idx new_idx acc (qid # qids) =
     (case dict_index old_idx qid of
        Inl e \<Rightarrow> Inl e
      | Inr a \<Rightarrow>
          (case dict_index new_idx qid of
             Inl e \<Rightarrow> Inl e
           | Inr b \<Rightarrow>
               (let ds = list_diff iter a b
                in changed_loop iter old_idx new_idx
                     (if ds \<noteq> [] then acc @ [(qid, ds)] else acc) qids)))"

definition compute_changes_quiz ::
  "(string \<Rightarrow> int option) \<Rightarrow> (string list \<Rightarrow> string list) \<Rightarrow> snapshot \<Rightarrow> snapshot
     \<Rightarrow> py_error + (string list \<times> string list \<times> changed)" where
  "compute_changes_quiz int_unicode iter old_idx new_idx =
     (let old_ids = dict_keys old_idx; new_ids = dict_keys new_idx in
      case sorted_by_int int_unicode (iter (set_diff new_ids old_ids)) of
        Inl e \<Rightarrow> Inl e
      | Inr s1 \<Rightarrow>
          (let added_quizzes = foldl (\<lambda>acc qid. acc @ [qid]) [] s1 in
           case sorted_by_int int_unicode (iter (set_diff old_ids new_ids)) of
             Inl e \<Rightarrow> Inl e
           | Inr s2 \<Rightarrow>
               (let removed_quizzes = foldl (\<lambda>acc qid. acc @ [qid]) [] s2 in
                case sorted_by_int int_unicode (iter (set_inter old_ids new_ids)) of
                  Inl e \<Rightarrow> Inl e
                | Inr s3 \<Rightarrow>
                    (case changed_loop iter old_idx new_idx [] s3 of
                       Inl e \<Rightarrow> Inl e
                     | Inr changed_quizzes \<Rightarrow>
                         Inr (added_quizzes, removed_quizzes, changed_quizzes)))))"

section \<open>The renderer\<close>

text \<open>
  The pieces of text of \<^verbatim>\<open>render_change_message_quiz\<close>; the symbols beyond ASCII are
  their UTF-8 bytes. \<^verbatim>\<open>json.dumps\<close> and \<^verbatim>\<open>str\<close> of a dict are parameters
  (\<open>dumps\<close>, \<open>str_dict\<close>): the renderer only places their results.
\<close>

fun py_join :: "string \<Rightarrow> string list \<Rightarrow> string" where
  "py_join sep [] = []"
| "py_join sep [x] = x"
| "py_join sep (x # y # ys) = x @ sep @ py_join sep (y # ys)"

definition NL :: string where
  "NL = [CHR 0x0A]"

definition ARROW :: string where
  "ARROW = [CHR 0xE2, CHR 0x86, CHR 0x92]"

definition BULLET :: string where
  "BULLET = [CHR 0xE2, CHR 0x80, CHR 0xA2]"

definition ADDED_LABEL :: string where
  "ADDED_LABEL = ''**'' @ [CHR 0xE2, CHR 0x9E, CHR 0x95] @ '' Quizzes added (new overrides):** ''"

definition REMOVED_LABEL :: string where
  "REMOVED_LABEL =
     ''**'' @ [CHR 0xE2, CHR 0x9E, CHR 0x96] @ '' Quizzes removed (overrides gone):** ''"

definition CHANGED_LABEL :: string where
  "CHANGED_LABEL =
     ''**'' @ [CHR 0xE2, CHR 0x9C, CHR 0x8F, CHR 0xEF, CHR 0xB8, CHR 0x8F] @ '' Overrides changed:**''"

definition header :: "string \<Rightarrow> string" where
  "header course_id =
     ''@everyone '' @ [CHR 0xF0, CHR 0x9F, CHR 0x93, CHR 0xA3] @
     '' Canvas changes detected for course `'' @ course_id @
     ''` (quiz_assignment_overrides)''"

definition backticked :: "string \<Rightarrow> string" where
  "backticked q = ''`'' @ q @ ''`''"

definition added_line :: "string list \<Rightarrow> string" where
  "added_line added_qids = ADDED_LABEL @ py_join '', '' (map backticked added_qids)"

definition removed_line :: "string list \<Rightarrow> string" where
  "removed_line removed_qids = REMOVED_LABEL @ py_join '', '' (map backticked removed_qids)"

definition truthy_val :: "pyval \<Rightarrow> bool" where
  "truthy_val x = (case x of Scalar s \<Rightarrow> truthy s | Dict e \<Rightarrow> e \<noteq> [])"

definition fmt_dt :: "pyval \<Rightarrow> pyval" where
  "fmt_dt x = (if truthy_val x then x else Scalar (SStr ''null''))"

definition py_format :: "(entry \<Rightarrow> string) \<Rightarrow> pyval \<Rightarrow> string" where
  "py_format str_dict x = (case x of Scalar s \<Rightarrow> py_str s | Dict e \<Rightarrow> str_dict e)"

definition render_field :: "(entry \<Rightarrow> string) \<Rightarrow> string \<times> pyval \<times> pyval \<Rightarrow> string" where
  "render_field str_dict kv =
     (case kv of (k, ov, nv) \<Rightarrow>
        if k \<in> set [''due_at'', ''unlock_at'', ''lock_at'']
        then k @ '': `'' @ py_format str_dict (fmt_dt ov) @ ''` '' @ ARROW @ '' `'' @
             py_format str_dict (fmt_dt nv) @ ''`''
        else k @ '': `'' @ py_format str_dict ov @ ''` '' @ ARROW @ '' `'' @
             py_format str_dict nv @ ''`'')"

definition render_position ::
  "(pyval \<Rightarrow> string) \<Rightarrow> (entry \<Rightarrow> string) \<Rightarrow> nat \<times> field_diffs \<Rightarrow> string" where
  "render_position dumps str_dict d =
     (case d of (idx, field_diffs) \<Rightarrow>
        let pretty =
          (case map_of field_diffs ENTRY of
             Some (ov, nv) \<Rightarrow>
               [''entry #'' @ str_nat idx @ '': '' @ dumps ov @ '' '' @ ARROW @ '' '' @ dumps nv]
           | None \<Rightarrow> foldl (\<lambda>pretty kv. pretty @ [render_field str_dict kv]) [] field_diffs)
        in ''   '' @ BULLET @ '' '' @ py_join ''; '' pretty)"

definition render_quiz ::
  "(pyval \<Rightarrow> string) \<Rightarrow> (entry \<Rightarrow> string) \<Rightarrow> string list \<Rightarrow> string \<times> diffs
     \<Rightarrow> string list" where
  "render_quiz dumps str_dict lines c =
     (case c of (qid, ds) \<Rightarrow>
        foldl (\<lambda>lines d. lines @ [render_position dumps str_dict d])
          (lines @ [''- quiz `'' @ qid @ ''`'']) ds)"

definition render_change_message_quiz ::
  "(pyval \<Rightarrow> string) \<Rightarrow> (entry \<Rightarrow> string) \<Rightarrow> string list \<Rightarrow> string list \<Rightarrow> changed
     \<Rightarrow> string \<Rightarrow> string" where
  "render_change_message_quiz dumps str_dict added_qids removed_qids changed_qids course_id =
     (let lines = [];
          lines = (if added_qids \<noteq> [] then lines @ [added_line added_qids] else lines);
          lines = (if removed_qids \<noteq> [] then lines @ [removed_line removed_qids] else lines);
          lines = (if changed_qids \<noteq> []
                   then foldl (render_quiz dumps str_dict) (lines @ [CHANGED_LABEL]) changed_qids
                   else lines)
      in if lines = [] then [] else header course_id @ NL @ py_join NL lines)"

section \<open>Dictionaries: basic facts\<close>

lemma map_of_dict_set: "map_of (dict_set d k v) = (map_of d)(k \<mapsto> v)"
  by (induction d) auto

lemma keys_dict_set:
  "map fst (dict_set d k v) = (if k \<in> fst ` set d then map fst d else map fst d @ [k])"
  by (induction d) force+

lemma set_dict_keys: "set (dict_keys d) = fst ` set d"
  by (simp add: dict_keys_def)

lemma distinct_dict_keys: "distinct (dict_keys d)"
  by (simp add: dict_keys_def)

lemma map_of_None_iff_keys: "map_of d k = None \<longleftrightarrow> k \<notin> set (dict_keys d)"
  by (simp add: set_dict_keys map_of_eq_None_iff)

section \<open>The normalizer\<close>

text \<open>
  C7. \<open>normalize_due_entry\<close> is a total function with no error result. Its keys are
  exactly \<open>DUE_KEYS\<close>, in that order; a recognized field holds the input's value
  unchanged, or \<open>SNone\<close> when the input lacks it; no other field is kept; and two records
  that agree on the recognized fields have the same normal form, whatever else they
  hold and in whatever order.
\<close>

theorem normalize_due_entry_projection:
  "map fst (normalize_due_entry e) = DUE_KEYS \<and>
   (\<forall>k. map_of (normalize_due_entry e) k =
        (if k \<in> set DUE_KEYS
         then Some (case map_of e k of None \<Rightarrow> SNone | Some v \<Rightarrow> v) else None)) \<and>
   ((\<forall>k \<in> set DUE_KEYS. map_of e1 k = map_of e2 k) \<longrightarrow>
      normalize_due_entry e1 = normalize_due_entry e2)"
proof (intro conjI allI impI)
  show "map fst (normalize_due_entry e) = DUE_KEYS"
    by (simp add: normalize_due_entry_def DUE_KEYS_def)
next
  fix k
  show "map_of (normalize_due_entry e) k =
        (if k \<in> set DUE_KEYS
         then Some (case map_of e k of None \<Rightarrow> SNone | Some v \<Rightarrow> v) else None)"
    by (simp add: normalize_due_entry_def DUE_KEYS_def entry_get_def)
next
  assume "\<forall>k \<in> set DUE_KEYS. map_of e1 k = map_of e2 k"
  then show "normalize_due_entry e1 = normalize_due_entry e2"
    by (simp add: normalize_due_entry_def DUE_KEYS_def entry_get_def)
qed

theorem normalize_due_entry_projection_witness:
  "map fst (normalize_due_entry [(''title'', SStr ''HW1''), (''id'', SInt 7), (''base'', SBool True)])
     = DUE_KEYS \<and>
   map_of (normalize_due_entry [(''title'', SStr ''HW1''), (''id'', SInt 7), (''base'', SBool True)])
     ''base'' = Some (SBool True) \<and>
   map_of (normalize_due_entry [(''title'', SStr ''HW1''), (''id'', SInt 7), (''base'', SBool True)])
     ''due_at'' = Some SNone \<and>
   map_of (normalize_due_entry [(''title'', SStr ''HW1''), (''id'', SInt 7), (''base'', SBool True)])
     ''id'' = None \<and>
   normalize_due_entry [(''title'', SStr ''HW1''), (''id'', SInt 7), (''base'', SBool True)] =
   normalize_due_entry [(''base'', SBool True), (''title'', SStr ''HW1'')]"
  using normalize_due_entry_projection
    [of "[(''title'', SStr ''HW1''), (''id'', SInt 7), (''base'', SBool True)]"
        "[(''title'', SStr ''HW1''), (''id'', SInt 7), (''base'', SBool True)]"
        "[(''base'', SBool True), (''title'', SStr ''HW1'')]"]
  by (simp add: DUE_KEYS_def normalize_due_entry_def entry_get_def)

section \<open>The indexer\<close>

lemma index_item_eq:
  "index_item out itm =
     (if item_qid itm = SNone then out else dict_set out (py_str (item_qid itm)) (item_group itm))"
  by (simp add: index_item_def item_qid_def item_group_def Let_def)

lemma set_dict_set_subset: "set (dict_set d k v) \<subseteq> insert (k, v) (set d)"
  by (induction d) (auto split: if_splits)

lemma index_groups:
  "(k, g) \<in> set (foldl index_item out arr) \<Longrightarrow>
     (k, g) \<in> set out \<or> (\<exists>itm \<in> set arr. g = item_group itm)"
proof (induction arr arbitrary: out)
  case Nil
  then show ?case by simp
next
  case (Cons itm arr)
  from Cons.IH [OF Cons.prems [simplified]]
  show ?case
  proof
    assume "(k, g) \<in> set (index_item out itm)"
    then show ?thesis
      using set_dict_set_subset [of out "py_str (item_qid itm)" "item_group itm"]
      by (cases "item_qid itm = SNone") (auto simp: index_item_eq)
  next
    assume "\<exists>itm \<in> set arr. g = item_group itm"
    then show ?thesis by auto
  qed
qed

lemma sorted_item_group: "sorted (map sort_key_due (item_group itm))"
  by (simp add: item_group_def)

lemma base_order:
  assumes "sorted (map sort_key_due g)" "i < j" "j < length g"
    "fst (sort_key_due (g ! i)) = fst (sort_key_due (g ! j))"
    "truthy (entry_get (g ! i) ''base'')"
  shows "truthy (entry_get (g ! j) ''base'')"
proof -
  have "sort_key_due (g ! i) \<le> sort_key_due (g ! j)"
    using assms(1-3) sorted_nth_mono [of "map sort_key_due g" i j] by simp
  with assms(4,5) show ?thesis
    by (auto simp: sort_key_due_def split: if_splits)
qed

lemma index_item_skip: "item_qid itm = SNone \<Longrightarrow> index_item out itm = out"
  by (simp add: index_item_eq)

lemma index_skip: "foldl index_item out (filter (\<lambda>itm. item_qid itm \<noteq> SNone) arr) = foldl index_item out arr"
  by (induction arr arbitrary: out) (simp_all add: index_item_skip)

lemma fst_set_dict_set: "fst ` set (dict_set d k v) = insert k (fst ` set d)"
proof -
  have "fst ` set (dict_set d k v) = set (map fst (dict_set d k v))" by simp
  also have "\<dots> = insert k (fst ` set d)"
    unfolding keys_dict_set by auto
  finally show ?thesis .
qed

lemma index_keys:
  "fst ` set (foldl index_item out arr) =
     fst ` set out \<union> (\<lambda>itm. py_str (item_qid itm)) ` {itm \<in> set arr. item_qid itm \<noteq> SNone}"
proof (induction arr arbitrary: out)
  case Nil
  then show ?case by simp
next
  case (Cons itm arr)
  have step: "fst ` set (foldl index_item out (itm # arr)) =
     fst ` set (index_item out itm) \<union>
       (\<lambda>itm. py_str (item_qid itm)) ` {itm \<in> set arr. item_qid itm \<noteq> SNone}"
    using Cons.IH [of "index_item out itm"] by simp
  show ?case
  proof (cases "item_qid itm = SNone")
    case True
    then have "index_item out itm = out" by (simp add: index_item_eq)
    with True step show ?thesis by auto
  next
    case False
    then have "fst ` set (index_item out itm) = insert (py_str (item_qid itm)) (fst ` set out)"
      by (simp add: index_item_eq fst_set_dict_set)
    with False step show ?thesis by auto
  qed
qed

lemma index_later_untouched:
  "\<forall>y \<in> set ys. item_qid y \<noteq> SNone \<longrightarrow> py_str (item_qid y) \<noteq> k \<Longrightarrow>
     map_of (foldl index_item out ys) k = map_of out k"
proof (induction ys arbitrary: out)
  case Nil
  then show ?case by simp
next
  case (Cons y ys)
  have "map_of (index_item out y) k = map_of out k"
    using Cons.prems by (cases "item_qid y = SNone") (auto simp: index_item_eq map_of_dict_set)
  moreover have "map_of (foldl index_item (index_item out y) ys) k = map_of (index_item out y) k"
    using Cons.prems by (intro Cons.IH) simp
  ultimately show ?case by simp
qed

lemma index_last_wins:
  assumes "item_qid itm \<noteq> SNone"
    and "\<forall>y \<in> set ys. item_qid y \<noteq> SNone \<longrightarrow> py_str (item_qid y) \<noteq> py_str (item_qid itm)"
  shows "map_of (foldl index_item out (xs @ itm # ys)) (py_str (item_qid itm)) = Some (item_group itm)"
proof -
  have "map_of (foldl index_item (index_item (foldl index_item out xs) itm) ys) (py_str (item_qid itm))
      = map_of (index_item (foldl index_item out xs) itm) (py_str (item_qid itm))"
    using assms(2) by (rule index_later_untouched)
  also have "\<dots> = Some (item_group itm)"
    using assms(1) by (simp add: index_item_eq map_of_dict_set)
  finally show ?thesis by simp
qed


lemma index_eq_foldl: "normalize_payload_to_index data = foldl index_item [] (payload_items data)"
  by (simp add: normalize_payload_to_index_def payload_items_def)

text \<open>
  C3 as stated fails: with the specification's order (base entries first) the group that
  the indexer builds for two entries of the same title is not sorted. The indexer puts
  the entry that is not base first.
\<close>

theorem index_base_first_counterexample:
  "normalize_payload_to_index
     \<lparr>quiz_assignment_overrides = Some
        [\<lparr>quiz_id = Some (SInt 1),
          due_dates = Some [[(''title'', SStr ''A''), (''base'', SBool True)],
                            [(''title'', SStr ''A''), (''base'', SBool False)]]\<rparr>]\<rparr>
   = [(''1'',
       [[(''due_at'', SNone), (''unlock_at'', SNone), (''lock_at'', SNone),
         (''title'', SStr ''A''), (''base'', SBool False)],
        [(''due_at'', SNone), (''unlock_at'', SNone), (''lock_at'', SNone),
         (''title'', SStr ''A''), (''base'', SBool True)]])] \<and>
   \<not> sorted (map spec_sort_key_due
       [[(''due_at'', SNone), (''unlock_at'', SNone), (''lock_at'', SNone),
         (''title'', SStr ''A''), (''base'', SBool False)],
        [(''due_at'', SNone), (''unlock_at'', SNone), (''lock_at'', SNone),
         (''title'', SStr ''A''), (''base'', SBool True)]])"
  by code_simp

text \<open>
  C3, amended. Every group of an indexed snapshot is sorted by \<open>sort_key_due\<close>: title,
  then the is-base flag ascending, then the due, unlock and lock timestamps as strings.
  So among entries of one title an entry that is base is never followed by one that is
  not: the entries that are not base come first.
\<close>

theorem index_groups_sorted:
  "\<forall>(k, g) \<in> set (normalize_payload_to_index data).
     sorted (map sort_key_due g) \<and>
     (\<forall>i j. i < j \<and> j < length g \<and>
            fst (sort_key_due (g ! i)) = fst (sort_key_due (g ! j)) \<and>
            truthy (entry_get (g ! i) ''base'') \<longrightarrow>
            truthy (entry_get (g ! j) ''base''))"
proof (intro ballI, clarify)
  fix k g
  assume "(k, g) \<in> set (normalize_payload_to_index data)"
  then obtain itm where "g = item_group itm"
    using index_groups [of k g "[]" "payload_items data"] by (auto simp: index_eq_foldl)
  then have s: "sorted (map sort_key_due g)"
    by (simp add: sorted_item_group)
  show "sorted (map sort_key_due g) \<and>
     (\<forall>i j. i < j \<and> j < length g \<and>
            fst (sort_key_due (g ! i)) = fst (sort_key_due (g ! j)) \<and>
            truthy (entry_get (g ! i) ''base'') \<longrightarrow>
            truthy (entry_get (g ! j) ''base''))"
    using s base_order [OF s] by blast
qed

theorem index_groups_sorted_witness:
  "(''1'',
       [[(''due_at'', SNone), (''unlock_at'', SNone), (''lock_at'', SNone),
         (''title'', SStr ''A''), (''base'', SBool False)],
        [(''due_at'', SNone), (''unlock_at'', SNone), (''lock_at'', SNone),
         (''title'', SStr ''A''), (''base'', SBool True)]])
     \<in> set (normalize_payload_to_index
     \<lparr>quiz_assignment_overrides = Some
        [\<lparr>quiz_id = Some (SInt 1),
          due_dates = Some [[(''title'', SStr ''A''), (''base'', SBool True)],
                            [(''title'', SStr ''A''), (''base'', SBool False)]]\<rparr>]\<rparr>) \<and>
   sorted (map sort_key_due
       [[(''due_at'', SNone), (''unlock_at'', SNone), (''lock_at'', SNone),
         (''title'', SStr ''A''), (''base'', SBool False)],
        [(''due_at'', SNone), (''unlock_at'', SNone), (''lock_at'', SNone),
         (''title'', SStr ''A''), (''base'', SBool True)]])"
proof -
  have m: "(''1'',
       [[(''due_at'', SNone), (''unlock_at'', SNone), (''lock_at'', SNone),
         (''title'', SStr ''A''), (''base'', SBool False)],
        [(''due_at'', SNone), (''unlock_at'', SNone), (''lock_at'', SNone),
         (''title'', SStr ''A''), (''base'', SBool True)]])
     \<in> set (normalize_payload_to_index
     \<lparr>quiz_assignment_overrides = Some
        [\<lparr>quiz_id = Some (SInt 1),
          due_dates = Some [[(''title'', SStr ''A''), (''base'', SBool True)],
                            [(''title'', SStr ''A''), (''base'', SBool False)]]\<rparr>]\<rparr>)"
    by code_simp
  with index_groups_sorted show ?thesis by fast
qed


text \<open>
  C8 as stated fails for an element whose identifier comes again later in the payload:
  the key is there, but it holds the group of the later element.
\<close>

theorem index_duplicate_identifier_counterexample:
  "\<lparr>quiz_id = Some (SInt 1), due_dates = Some [[(''title'', SStr ''A'')]]\<rparr>
     \<in> set (payload_items
        \<lparr>quiz_assignment_overrides = Some
          [\<lparr>quiz_id = Some (SInt 1), due_dates = Some [[(''title'', SStr ''A'')]]\<rparr>,
           \<lparr>quiz_id = Some (SInt 1), due_dates = Some []\<rparr>]\<rparr>) \<and>
   item_qid \<lparr>quiz_id = Some (SInt 1), due_dates = Some [[(''title'', SStr ''A'')]]\<rparr> = SInt 1 \<and>
   py_str (SInt 1) = ''1'' \<and>
   map_of (normalize_payload_to_index
        \<lparr>quiz_assignment_overrides = Some
          [\<lparr>quiz_id = Some (SInt 1), due_dates = Some [[(''title'', SStr ''A'')]]\<rparr>,
           \<lparr>quiz_id = Some (SInt 1), due_dates = Some []\<rparr>]\<rparr>) ''1'' = Some [] \<and>
   item_group \<lparr>quiz_id = Some (SInt 1), due_dates = Some [[(''title'', SStr ''A'')]]\<rparr> \<noteq> []"
  by code_simp

text \<open>
  C8, amended. Indexing never fails and skips the elements without an identifier: the
  result is that of the payload without them, and its keys are the string forms
  \<open>py_str\<close> of the identifiers present, whatever their type. The key of an element
  holds that element's child records, normalized and sorted, when no later element
  with an identifier has the same string form (the last one wins).
\<close>

theorem index_skips_and_last_wins:
  "normalize_payload_to_index data =
     normalize_payload_to_index
       \<lparr>quiz_assignment_overrides =
          Some (filter (\<lambda>itm. item_qid itm \<noteq> SNone) (payload_items data))\<rparr> \<and>
   set (dict_keys (normalize_payload_to_index data)) =
     (\<lambda>itm. py_str (item_qid itm)) ` {itm \<in> set (payload_items data). item_qid itm \<noteq> SNone} \<and>
   (payload_items data = xs @ itm # ys \<and> item_qid itm \<noteq> SNone \<and>
    (\<forall>y \<in> set ys. item_qid y \<noteq> SNone \<longrightarrow> py_str (item_qid y) \<noteq> py_str (item_qid itm)) \<longrightarrow>
      map_of (normalize_payload_to_index data) (py_str (item_qid itm)) =
        Some (sort_key sort_key_due
               (map normalize_due_entry (case due_dates itm of None \<Rightarrow> [] | Some ds \<Rightarrow> ds))))"
proof (intro conjI impI)
  show "normalize_payload_to_index data =
     normalize_payload_to_index
       \<lparr>quiz_assignment_overrides =
          Some (filter (\<lambda>itm. item_qid itm \<noteq> SNone) (payload_items data))\<rparr>"
    by (simp add: index_eq_foldl index_skip payload_items_def)
next
  show "set (dict_keys (normalize_payload_to_index data)) =
     (\<lambda>itm. py_str (item_qid itm)) ` {itm \<in> set (payload_items data). item_qid itm \<noteq> SNone}"
    by (simp add: set_dict_keys index_eq_foldl index_keys)
next
  assume a: "payload_items data = xs @ itm # ys \<and> item_qid itm \<noteq> SNone \<and>
    (\<forall>y \<in> set ys. item_qid y \<noteq> SNone \<longrightarrow> py_str (item_qid y) \<noteq> py_str (item_qid itm))"
  then have "map_of (foldl index_item [] (xs @ itm # ys)) (py_str (item_qid itm)) = Some (item_group itm)"
    by (intro index_last_wins) simp_all
  with a show "map_of (normalize_payload_to_index data) (py_str (item_qid itm)) =
        Some (sort_key sort_key_due
               (map normalize_due_entry (case due_dates itm of None \<Rightarrow> [] | Some ds \<Rightarrow> ds)))"
    by (simp add: index_eq_foldl item_group_def)
qed

theorem index_skips_and_last_wins_witness:
  "normalize_payload_to_index
      \<lparr>quiz_assignment_overrides = Some
         [\<lparr>quiz_id = Some (SInt 7), due_dates = Some [[(''title'', SStr ''A'')]]\<rparr>,
          \<lparr>quiz_id = None, due_dates = Some [[(''title'', SStr ''B'')]]\<rparr>,
          \<lparr>quiz_id = Some (SStr ''7''), due_dates = None\<rparr>]\<rparr> = [(''7'', [])] \<and>
   normalize_payload_to_index
      \<lparr>quiz_assignment_overrides = Some
         [\<lparr>quiz_id = Some (SInt 7), due_dates = Some [[(''title'', SStr ''A'')]]\<rparr>,
          \<lparr>quiz_id = Some (SStr ''7''), due_dates = None\<rparr>]\<rparr> = [(''7'', [])] \<and>
   map_of (normalize_payload_to_index
      \<lparr>quiz_assignment_overrides = Some
         [\<lparr>quiz_id = Some (SInt 7), due_dates = Some [[(''title'', SStr ''A'')]]\<rparr>,
          \<lparr>quiz_id = None, due_dates = Some [[(''title'', SStr ''B'')]]\<rparr>,
          \<lparr>quiz_id = Some (SStr ''7''), due_dates = None\<rparr>]\<rparr>) ''7'' = Some []"
proof -
  let ?i1 = "\<lparr>quiz_id = Some (SInt 7), due_dates = Some [[(''title'', SStr ''A'')]]\<rparr>"
  let ?i2 = "\<lparr>quiz_id = None, due_dates = Some [[(''title'', SStr ''B'')]]\<rparr>"
  let ?i3 = "\<lparr>quiz_id = Some (SStr ''7''), due_dates = None :: entry list option\<rparr>"
  let ?D = "\<lparr>quiz_assignment_overrides = Some [?i1, ?i2, ?i3]\<rparr>"
  have h: "payload_items ?D = [?i1, ?i2] @ ?i3 # [] \<and> item_qid ?i3 \<noteq> SNone \<and>
    (\<forall>y \<in> set []. item_qid y \<noteq> SNone \<longrightarrow> py_str (item_qid y) \<noteq> py_str (item_qid ?i3))"
    by (simp add: payload_items_def item_qid_def)
  have f: "filter (\<lambda>itm. item_qid itm \<noteq> SNone) (payload_items ?D) = [?i1, ?i3]"
    by (simp add: payload_items_def item_qid_def)
  have q: "py_str (item_qid ?i3) = ''7''"
    by (simp add: item_qid_def)
  have e: "normalize_payload_to_index \<lparr>quiz_assignment_overrides = Some [?i1, ?i3]\<rparr> = [(''7'', [])]"
    by code_simp
  from index_skips_and_last_wins [of ?D "[?i1, ?i2]" ?i3 "[]"] h f q e
  show ?thesis by simp
qed

section \<open>Snapshot store\<close>

text \<open>
  What \<open>load_snapshot\<close> does in each state of the store. It gives the empty
  mapping when the file is missing and when reading or decoding raises; it gives back
  whatever \<^verbatim>\<open>json.loads\<close> returns; and it raises when the call of
  \<^verbatim>\<open>exists()\<close> raises, which is outside the \<^verbatim>\<open>try\<close> block.
\<close>

lemma load_snapshot_cases:
  "load_snapshot loads Missing = Inr (Snapshot [])"
  "load_snapshot loads (Present (Inl e)) = Inr (Snapshot [])"
  "loads t = Inl e \<Longrightarrow> load_snapshot loads (Present (Inr t)) = Inr (Snapshot [])"
  "loads t = Inr v \<Longrightarrow> load_snapshot loads (Present (Inr t)) = Inr v"
  "load_snapshot loads (ExistsRaises e) = Inl e"
  by (simp_all add: load_snapshot_def)

text \<open>
  C9 fails on the code. A snapshot file that holds valid JSON which is not a mapping
  (here the text \<^verbatim>\<open>null\<close>, which \<^verbatim>\<open>json.loads\<close> decodes to \<^verbatim>\<open>None\<close>) is
  corrupt, yet \<open>load_snapshot\<close> returns the decoded value and not the empty mapping.
  And when \<^verbatim>\<open>exists()\<close> raises, \<open>load_snapshot\<close> raises.
\<close>

theorem load_snapshot_corrupt_content:
  "load_snapshot (\<lambda>t. if t = ''null'' then Inr Other else Inl ValueError)
     (Present (Inr ''null'')) = Inr Other \<and>
   Inr Other \<noteq> (Inr (Snapshot []) :: py_error + loaded) \<and>
   load_snapshot (\<lambda>t. if t = ''null'' then Inr Other else Inl ValueError)
     (ExistsRaises OSError) = Inl OSError"
  by (simp add: load_snapshot_def)

section \<open>Sets and their order\<close>

lemma set_order_set: "set_order iter \<Longrightarrow> set (iter xs) = set xs"
  unfolding set_order_def by (metis set_mset_mset)

lemma set_order_distinct: "set_order iter \<Longrightarrow> distinct (iter xs) = distinct xs"
  unfolding set_order_def by (metis mset_eq_imp_distinct_iff)

lemma set_order_Nil: "set_order iter \<Longrightarrow> iter [] = []"
  unfolding set_order_def by (metis mset_zero_iff)

lemma set_order_id: "set_order (\<lambda>xs. xs)"
  by (simp add: set_order_def)

lemma set_order_rev: "set_order rev"
  by (simp add: set_order_def)

text \<open>
  \<^verbatim>\<open>int(str(i))\<close> is \<open>i\<close>, so the canonical identifiers are exactly the strings
  that \<^verbatim>\<open>str\<close> prints for an integer.
\<close>

lemma digit_val_digit_char: "d < 10 \<Longrightarrow> digit_val (digit_char d) = Some d"
proof -
  assume "d < 10"
  then have "d \<in> {0, 1, 2, 3, 4, 5, 6, 7, 8, 9}" by auto
  then show ?thesis
    by (auto simp: digit_val_def digit_char_def less_eq_char_def)
qed

lemma digit_char_props: "d < 10 \<Longrightarrow> digit_char d \<noteq> CHR ''_'' \<and> digit_char d \<noteq> CHR ''-'' \<and>
    digit_char d \<noteq> CHR ''+'' \<and> \<not> is_space (digit_char d)"
proof -
  assume "d < 10"
  then have "d \<in> {0, 1, 2, 3, 4, 5, 6, 7, 8, 9}" by auto
  then show ?thesis
    by (auto simp: digit_char_def is_space_def)
qed

lemma str_nat_small: "n < 10 \<Longrightarrow> str_nat n = [digit_char n]"
  by (simp add: str_nat.simps [of n])

lemma str_nat_large: "\<not> n < 10 \<Longrightarrow> str_nat n = str_nat (n div 10) @ [digit_char (n mod 10)]"
  by (simp add: str_nat.simps [of n])

lemma is_digit_digit_char: "d < 10 \<Longrightarrow> is_digit (digit_char d)"
  by (auto simp: is_digit_def)

lemma str_nat_digits: "list_all is_digit (str_nat n) \<and> str_nat n \<noteq> []"
proof (induction n rule: str_nat.induct)
  case (1 n)
  show ?case
  proof (cases "n < 10")
    case True
    then show ?thesis by (simp add: str_nat_small is_digit_digit_char)
  next
    case False
    with 1 show ?thesis
      by (simp add: str_nat_large is_digit_digit_char)
  qed
qed

lemma digits_val_snoc:
  "list_all is_digit ds \<Longrightarrow> d < 10 \<Longrightarrow>
     digits_val acc (ds @ [digit_char d]) = map_option (\<lambda>v. v * 10 + d) (digits_val acc ds)"
proof (induction ds arbitrary: acc)
  case Nil
  then show ?case by (simp add: digit_val_digit_char digit_char_props)
next
  case (Cons c ds)
  from Cons.prems obtain e where e: "e < 10" "c = digit_char e"
    by (auto simp: is_digit_def)
  with Cons show ?case
    by (simp add: digit_val_digit_char digit_char_props)
qed

lemma parse_nat_str_nat: "parse_nat (str_nat n) = Some n"
proof (induction n rule: str_nat.induct)
  case (1 n)
  show ?case
  proof (cases "n < 10")
    case True
    then show ?thesis
      by (subst str_nat.simps) (simp add: parse_nat_def digit_val_digit_char)
  next
    case False
    obtain c cs where cs: "str_nat (n div 10) = c # cs"
      using str_nat_digits [of "n div 10"] by (cases "str_nat (n div 10)") auto
    with str_nat_digits [of "n div 10"] obtain e where e: "e < 10" "c = digit_char e"
      and rest: "list_all is_digit cs"
      by (auto simp: is_digit_def)
    from 1 [OF False] have "parse_nat (c # cs) = Some (n div 10)"
      by (simp add: cs)
    then have "digits_val e cs = Some (n div 10)"
      by (simp add: parse_nat_def e digit_val_digit_char)
    then have "parse_nat (c # cs @ [digit_char (n mod 10)]) = Some (n div 10 * 10 + n mod 10)"
      by (simp add: parse_nat_def e digit_val_digit_char digits_val_snoc [OF rest])
    with False cs show ?thesis
      by (subst str_nat.simps) simp
  qed
qed

lemma dropWhile_hd: "s \<noteq> [] \<Longrightarrow> \<not> P (hd s) \<Longrightarrow> dropWhile P s = s"
  by (cases s) simp_all

lemma strip_no_space:
  assumes "s \<noteq> []" "\<not> is_space (hd s)" "\<not> is_space (last s)"
  shows "strip s = s"
proof -
  have "dropWhile is_space s = s"
    using assms(1,2) by (rule dropWhile_hd)
  moreover have "dropWhile is_space (rev s) = rev s"
    using assms(1,3) by (intro dropWhile_hd) (simp_all add: hd_rev)
  ultimately show ?thesis by (simp add: strip_def)
qed

lemma ascii_int_str_int: "ascii_int (str_int i) = Some i"
proof -
  obtain c cs where cs: "str_nat (nat \<bar>i\<bar>) = c # cs"
    using str_nat_digits [of "nat \<bar>i\<bar>"] by (cases "str_nat (nat \<bar>i\<bar>)") auto
  have dg: "list_all is_digit (c # cs)"
    using str_nat_digits [of "nat \<bar>i\<bar>"] by (simp add: cs)
  then obtain e where e: "e < 10" "c = digit_char e"
    by (auto simp: is_digit_def)
  have l: "\<not> is_space (last (c # cs))"
  proof -
    have "last (c # cs) \<in> set (c # cs)" by (rule last_in_set) simp
    with dg obtain d where "d < 10" "last (c # cs) = digit_char d"
      unfolding list_all_iff is_digit_def by blast
    then show ?thesis by (simp add: digit_char_props)
  qed
  have p: "parse_nat (c # cs) = Some (nat \<bar>i\<bar>)"
    using parse_nat_str_nat [of "nat \<bar>i\<bar>"] by (simp add: cs)
  show ?thesis
  proof (cases "i < 0")
    case True
    then have s: "str_int i = CHR ''-'' # c # cs"
      by (simp add: str_int_def cs [symmetric] abs_if)
    have "strip (CHR ''-'' # c # cs) = CHR ''-'' # c # cs"
      using l by (intro strip_no_space) (simp_all add: is_space_def)
    with True p show ?thesis
      by (simp add: ascii_int_def s)
  next
    case False
    then have s: "str_int i = c # cs"
      by (simp add: str_int_def cs [symmetric] abs_if)
    have "strip (c # cs) = c # cs"
      using l e by (intro strip_no_space) (simp_all add: digit_char_props)
    with False p e show ?thesis
      by (simp add: ascii_int_def s digit_char_props)
  qed
qed

lemma canonical_id_iff: "canonical_id s \<longleftrightarrow> (\<exists>i. s = str_int i)"
  by (auto simp: canonical_id_def ascii_int_str_int split: option.splits)

lemma digit_char_ascii: "d < 10 \<Longrightarrow> (of_char (digit_char d) :: nat) < 128"
proof -
  assume "d < 10"
  then have "d \<in> {0, 1, 2, 3, 4, 5, 6, 7, 8, 9}" by auto
  then show ?thesis
    by (auto simp: digit_char_def)
qed

lemma is_ascii_str_nat: "is_ascii (str_nat n)"
  using str_nat_digits [of n]
  by (auto simp: is_ascii_def list_all_iff is_digit_def digit_char_ascii)

lemma is_ascii_str_int: "is_ascii (str_int i)"
  using is_ascii_str_nat by (simp add: str_int_def is_ascii_def)

lemma py_int_canonical: "canonical_id s \<Longrightarrow> py_int int_unicode s = ascii_int s"
  by (auto simp: canonical_id_iff py_int_def is_ascii_str_int)

lemma py_int_str_int: "py_int int_unicode (str_int i) = Some i"
  by (simp add: py_int_def is_ascii_str_int ascii_int_str_int)

lemma canonical_id_parses: "canonical_id s \<Longrightarrow> py_int int_unicode s \<noteq> None"
  by (auto simp: canonical_id_iff py_int_str_int)

lemma canonical_id_inj:
  "canonical_id s \<Longrightarrow> canonical_id t \<Longrightarrow>
     the (py_int int_unicode s) = the (py_int int_unicode t) \<Longrightarrow> s = t"
  by (auto simp: canonical_id_iff py_int_str_int)

lemma append_loop: "foldl (\<lambda>acc q. acc @ [q]) acc xs = acc @ xs"
  by (induction xs arbitrary: acc) simp_all

lemma py_eq_refl: "py_eq x x"
  by (cases x) (simp_all add: py_eq_def)

lemma dict_eq_refl: "dict_eq e e"
  by (simp add: dict_eq_def list_all_iff py_eq_refl)

lemma opt_eq_refl: "opt_eq x x"
  by (cases x) (simp_all add: opt_eq_def dict_eq_refl)

section \<open>The differ: one position, one group\<close>

lemma dict_set_fresh: "k \<notin> fst ` set d \<Longrightarrow> dict_set d k v = d @ [(k, v)]"
  by (induction d) auto

lemma field_loop:
  "distinct ks \<Longrightarrow> set ks \<inter> fst ` set acc = {} \<Longrightarrow>
   foldl (\<lambda>fd k. if P k then dict_set fd k (g k) else fd) acc ks
     = acc @ map (\<lambda>k. (k, g k)) (filter P ks)"
proof (induction ks arbitrary: acc)
  case Nil
  then show ?case by simp
next
  case (Cons k ks)
  show ?case
  proof (cases "P k")
    case True
    have fresh: "k \<notin> fst ` set acc" using Cons.prems by auto
    have "set ks \<inter> fst ` set (acc @ [(k, g k)]) = {}"
      using Cons.prems by auto
    with Cons.IH [of "acc @ [(k, g k)]"] Cons.prems True fresh show ?thesis
      by (simp add: dict_set_fresh)
  next
    case False
    with Cons.IH [of acc] Cons.prems show ?thesis by auto
  qed
qed

lemma set_union_set: "set (set_union xs ys) = set xs \<union> set ys"
  by (simp add: set_union_def)

lemma entry_diff_both:
  assumes "set_order iter"
  shows "entry_diff iter (Some l) (Some r) =
     map (\<lambda>k. (k, Scalar (entry_get l k), Scalar (entry_get r k)))
       (filter (\<lambda>k. \<not> py_eq (entry_get l k) (entry_get r k))
          (iter (set_union (dict_keys l) (dict_keys r))))"
proof -
  have d: "distinct (iter (set_union (dict_keys l) (dict_keys r)))"
    using assms by (simp add: set_order_distinct set_union_def)
  show ?thesis
    using field_loop [OF d, of "[]" "\<lambda>k. \<not> py_eq (entry_get l k) (entry_get r k)"
        "\<lambda>k. (Scalar (entry_get l k), Scalar (entry_get r k))"]
    by (simp add: entry_diff_def)
qed

lemma entry_diff_one_sided:
  "entry_diff iter (Some l) None = [(ENTRY, Dict l, Scalar SNone)]"
  "entry_diff iter None (Some r) = [(ENTRY, Scalar SNone, Dict r)]"
  by (simp_all add: entry_diff_def opt_val_def)

lemma entry_get_absent: "k \<notin> set (dict_keys e) \<Longrightarrow> entry_get e k = SNone"
  using map_of_None_iff_keys [of e k] by (simp add: entry_get_def)

lemma dict_eq_fields: "dict_eq l r \<Longrightarrow> py_eq (entry_get l k) (entry_get r k)"
  by (cases "k \<in> set (dict_keys l)")
     (auto simp: dict_eq_def list_all_iff entry_get_absent py_eq_refl)

lemma entry_diff_equal:
  assumes "set_order iter" "opt_eq left right" "left \<noteq> None \<or> right \<noteq> None"
  shows "entry_diff iter left right = []"
proof -
  from assms(2,3) obtain l r where lr: "left = Some l" "right = Some r" "dict_eq l r"
    by (cases left; cases right) (auto simp: opt_eq_def)
  then show ?thesis
    using entry_diff_both [OF assms(1), of l r] by (simp add: dict_eq_fields)
qed

lemma list_diff_step_eq:
  assumes "set_order iter" "i < max (length a) (length b)"
  shows "list_diff_step iter a b ds i =
     ds @ (if entry_diff iter (entry_at a i) (entry_at b i) \<noteq> []
           then [(i, entry_diff iter (entry_at a i) (entry_at b i))] else [])"
proof (cases "opt_eq (entry_at a i) (entry_at b i)")
  case True
  have "entry_at a i \<noteq> None \<or> entry_at b i \<noteq> None"
    using assms(2) by (auto simp: entry_at_def)
  with True entry_diff_equal [OF assms(1)] show ?thesis
    by (simp add: list_diff_step_def)
next
  case False
  then show ?thesis by (simp add: list_diff_step_def Let_def)
qed

lemma list_diff_loop:
  assumes "set_order iter" "\<forall>i \<in> set is. i < max (length a) (length b)"
  shows "foldl (list_diff_step iter a b) ds is =
     ds @ map (\<lambda>i. (i, entry_diff iter (entry_at a i) (entry_at b i)))
            (filter (\<lambda>i. entry_diff iter (entry_at a i) (entry_at b i) \<noteq> []) is)"
  using assms(2)
proof (induction "is" arbitrary: ds)
  case Nil
  then show ?case by simp
next
  case (Cons i "is")
  then show ?case
    by (simp add: list_diff_step_eq [OF assms(1)])
qed

lemma list_diff_eq:
  assumes "set_order iter"
  shows "list_diff iter a b =
     map (\<lambda>i. (i, entry_diff iter (entry_at a i) (entry_at b i)))
       (filter (\<lambda>i. entry_diff iter (entry_at a i) (entry_at b i) \<noteq> [])
          [0..<max (length a) (length b)])"
  using list_diff_loop [OF assms, of "[0..<max (length a) (length b)]" a b "[]"]
  by (simp add: list_diff_def)

lemma list_diff_self:
  assumes "set_order iter"
  shows "list_diff iter a a = []"
proof -
  have "entry_diff iter (entry_at a i) (entry_at a i) = []" if "i < length a" for i
    using that entry_diff_equal [OF assms, of "entry_at a i" "entry_at a i"]
    by (simp add: opt_eq_refl entry_at_def)
  then show ?thesis
    by (simp add: list_diff_eq [OF assms] filter_empty_conv)
qed

section \<open>The differ: two snapshots\<close>

lemma sorted_by_int_ok:
  "list_all (\<lambda>x. py_int int_unicode x \<noteq> None) xs \<Longrightarrow>
     sorted_by_int int_unicode xs = Inr (sort_key (\<lambda>x. the (py_int int_unicode x)) xs)"
  by (simp add: sorted_by_int_def)

lemma sorted_by_int_err:
  "\<not> list_all (\<lambda>x. py_int int_unicode x \<noteq> None) xs \<Longrightarrow> sorted_by_int int_unicode xs = Inl ValueError"
  by (simp add: sorted_by_int_def)

lemma dict_index_Some: "map_of d k = Some v \<Longrightarrow> dict_index d k = Inr v"
  by (simp add: dict_index_def)

lemma changed_loop_eq:
  assumes "\<forall>q \<in> set qs. q \<in> set (dict_keys old_idx) \<and> q \<in> set (dict_keys new_idx)"
  shows "changed_loop iter old_idx new_idx acc qs =
     Inr (acc @ map (\<lambda>q. (q, list_diff iter (the (map_of old_idx q)) (the (map_of new_idx q))))
            (filter (\<lambda>q. list_diff iter (the (map_of old_idx q)) (the (map_of new_idx q)) \<noteq> []) qs))"
  using assms
proof (induction qs arbitrary: acc)
  case Nil
  then show ?case by simp
next
  case (Cons q qs)
  from Cons.prems obtain a b where ab: "map_of old_idx q = Some a" "map_of new_idx q = Some b"
    using map_of_None_iff_keys [of old_idx q] map_of_None_iff_keys [of new_idx q] by auto
  have rest: "\<forall>q \<in> set qs. q \<in> set (dict_keys old_idx) \<and> q \<in> set (dict_keys new_idx)"
    using Cons.prems by simp
  show ?case
    using ab Cons.IH [OF rest] by (simp add: dict_index_Some Let_def)
qed

lemma compute_ok:
  assumes it: "set_order iter"
    and p: "list_all (\<lambda>k. py_int int_unicode k \<noteq> None) (dict_keys old_idx @ dict_keys new_idx)"
  shows "compute_changes_quiz int_unicode iter old_idx new_idx =
     Inr (sort_key (\<lambda>x. the (py_int int_unicode x)) (iter (set_diff (dict_keys new_idx) (dict_keys old_idx))),
          sort_key (\<lambda>x. the (py_int int_unicode x)) (iter (set_diff (dict_keys old_idx) (dict_keys new_idx))),
          map (\<lambda>q. (q, list_diff iter (the (map_of old_idx q)) (the (map_of new_idx q))))
            (filter (\<lambda>q. list_diff iter (the (map_of old_idx q)) (the (map_of new_idx q)) \<noteq> [])
               (sort_key (\<lambda>x. the (py_int int_unicode x))
                  (iter (set_inter (dict_keys old_idx) (dict_keys new_idx))))))"
proof -
  let ?K = "\<lambda>x. the (py_int int_unicode x)"
  let ?O = "dict_keys old_idx" and ?N = "dict_keys new_idx"
  have 1: "sorted_by_int int_unicode (iter (set_diff ?N ?O)) = Inr (sort_key ?K (iter (set_diff ?N ?O)))"
    using p by (intro sorted_by_int_ok) (auto simp: list_all_iff set_order_set [OF it] set_diff_def)
  have 2: "sorted_by_int int_unicode (iter (set_diff ?O ?N)) = Inr (sort_key ?K (iter (set_diff ?O ?N)))"
    using p by (intro sorted_by_int_ok) (auto simp: list_all_iff set_order_set [OF it] set_diff_def)
  have 3: "sorted_by_int int_unicode (iter (set_inter ?O ?N)) = Inr (sort_key ?K (iter (set_inter ?O ?N)))"
    using p by (intro sorted_by_int_ok) (auto simp: list_all_iff set_order_set [OF it] set_inter_def)
  have "\<forall>q \<in> set (sort_key ?K (iter (set_inter ?O ?N))). q \<in> set ?O \<and> q \<in> set ?N"
    by (auto simp: set_order_set [OF it] set_inter_def)
  from changed_loop_eq [OF this, of iter "[]"] show ?thesis
    by (simp add: compute_changes_quiz_def Let_def 1 2 3 append_loop)
qed

lemma compute_err:
  assumes it: "set_order iter"
    and p: "\<not> list_all (\<lambda>k. py_int int_unicode k \<noteq> None) (dict_keys old_idx @ dict_keys new_idx)"
  shows "compute_changes_quiz int_unicode iter old_idx new_idx = Inl ValueError"
proof -
  let ?O = "dict_keys old_idx" and ?N = "dict_keys new_idx"
  from p obtain k where k: "k \<in> set ?O \<union> set ?N" "py_int int_unicode k = None"
    by (auto simp: list_all_iff)
  then have "k \<in> set (iter (set_diff ?N ?O)) \<or> k \<in> set (iter (set_diff ?O ?N)) \<or>
             k \<in> set (iter (set_inter ?O ?N))"
    by (auto simp: set_order_set [OF it] set_diff_def set_inter_def)
  with k(2) have some: "\<not> list_all (\<lambda>k. py_int int_unicode k \<noteq> None) (iter (set_diff ?N ?O)) \<or>
     \<not> list_all (\<lambda>k. py_int int_unicode k \<noteq> None) (iter (set_diff ?O ?N)) \<or>
     \<not> list_all (\<lambda>k. py_int int_unicode k \<noteq> None) (iter (set_inter ?O ?N))"
    unfolding list_all_iff by blast
  show ?thesis
  proof (cases "list_all (\<lambda>k. py_int int_unicode k \<noteq> None) (iter (set_diff ?N ?O))")
    case False
    then show ?thesis
      by (simp add: compute_changes_quiz_def Let_def sorted_by_int_err del: not_None_eq)
  next
    case n: True
    show ?thesis
    proof (cases "list_all (\<lambda>k. py_int int_unicode k \<noteq> None) (iter (set_diff ?O ?N))")
      case False
      with n show ?thesis
        by (simp add: compute_changes_quiz_def Let_def sorted_by_int_err sorted_by_int_ok
            del: not_None_eq)
    next
      case True
      with n some have "\<not> list_all (\<lambda>k. py_int int_unicode k \<noteq> None) (iter (set_inter ?O ?N))"
        by blast
      with n True show ?thesis
        by (simp add: compute_changes_quiz_def Let_def sorted_by_int_err sorted_by_int_ok
            del: not_None_eq)
    qed
  qed
qed

section \<open>The differ: added and removed identifiers\<close>

text \<open>
  C5. Whatever the order in which the sets are iterated, and whatever \<^verbatim>\<open>int\<close>
  gives on text beyond ASCII: when \<^verbatim>\<open>int\<close> parses every identifier of the two
  snapshots, \<open>compute_changes_quiz\<close> returns, and the added list (the identifiers
  of the new snapshot only) and the removed list (those of the old snapshot only) are
  sorted ascending by numeric value; when \<^verbatim>\<open>int\<close> does not parse some identifier,
  it raises \<^verbatim>\<open>ValueError\<close> and returns no lists.
\<close>

theorem compute_changes_numeric_order:
  assumes "set_order iter"
  shows "((\<forall>k \<in> set (dict_keys old_idx) \<union> set (dict_keys new_idx). py_int int_unicode k \<noteq> None) \<longrightarrow>
           (\<exists>added removed changed.
              compute_changes_quiz int_unicode iter old_idx new_idx = Inr (added, removed, changed) \<and>
              set added = set (dict_keys new_idx) - set (dict_keys old_idx) \<and> distinct added \<and>
              set removed = set (dict_keys old_idx) - set (dict_keys new_idx) \<and> distinct removed \<and>
              sorted (map (\<lambda>k. the (py_int int_unicode k)) added) \<and>
              sorted (map (\<lambda>k. the (py_int int_unicode k)) removed))) \<and>
         ((\<exists>k \<in> set (dict_keys old_idx) \<union> set (dict_keys new_idx). py_int int_unicode k = None) \<longrightarrow>
            compute_changes_quiz int_unicode iter old_idx new_idx = Inl ValueError)"
proof (intro conjI impI)
  assume "\<forall>k \<in> set (dict_keys old_idx) \<union> set (dict_keys new_idx). py_int int_unicode k \<noteq> None"
  then have p: "list_all (\<lambda>k. py_int int_unicode k \<noteq> None) (dict_keys old_idx @ dict_keys new_idx)"
    unfolding list_all_iff by simp
  let ?A = "sort_key (\<lambda>x. the (py_int int_unicode x)) (iter (set_diff (dict_keys new_idx) (dict_keys old_idx)))"
  let ?R = "sort_key (\<lambda>x. the (py_int int_unicode x)) (iter (set_diff (dict_keys old_idx) (dict_keys new_idx)))"
  have "set ?A = set (dict_keys new_idx) - set (dict_keys old_idx)"
    and "set ?R = set (dict_keys old_idx) - set (dict_keys new_idx)"
    by (auto simp: set_order_set [OF assms] set_diff_def)
  moreover have "distinct ?A" and "distinct ?R"
    by (simp_all add: set_order_distinct [OF assms] set_diff_def distinct_dict_keys)
  moreover have "sorted (map (\<lambda>k. the (py_int int_unicode k)) ?A)" and "sorted (map (\<lambda>k. the (py_int int_unicode k)) ?R)"
    by simp_all
  ultimately show "\<exists>added removed changed.
              compute_changes_quiz int_unicode iter old_idx new_idx = Inr (added, removed, changed) \<and>
              set added = set (dict_keys new_idx) - set (dict_keys old_idx) \<and> distinct added \<and>
              set removed = set (dict_keys old_idx) - set (dict_keys new_idx) \<and> distinct removed \<and>
              sorted (map (\<lambda>k. the (py_int int_unicode k)) added) \<and>
              sorted (map (\<lambda>k. the (py_int int_unicode k)) removed)"
    unfolding compute_ok [OF assms p] by blast
next
  assume "\<exists>k \<in> set (dict_keys old_idx) \<union> set (dict_keys new_idx). py_int int_unicode k = None"
  then have "\<not> list_all (\<lambda>k. py_int int_unicode k \<noteq> None) (dict_keys old_idx @ dict_keys new_idx)"
    unfolding list_all_iff by auto
  then show "compute_changes_quiz int_unicode iter old_idx new_idx = Inl ValueError"
    by (rule compute_err [OF assms])
qed

theorem compute_changes_numeric_order_witness:
  "set_order rev \<and>
   compute_changes_quiz (\<lambda>s. if s = [CHR 0xD9, CHR 0xA3] then Some 3 else None) rev
       [(''10'', [])] [(''20'', []), (''10'', []), ([CHR 0xD9, CHR 0xA3], []), ('' 7'', [])]
     = Inr ([[CHR 0xD9, CHR 0xA3], '' 7'', ''20''], [], []) \<and>
   map (\<lambda>k. the (py_int (\<lambda>s. if s = [CHR 0xD9, CHR 0xA3] then Some 3 else None) k)) [[CHR 0xD9, CHR 0xA3], '' 7'', ''20''] = [3, 7, 20] \<and>
   py_int (\<lambda>s. if s = [CHR 0xD9, CHR 0xA3] then Some 3 else None) [CHR 0x1C, CHR ''5''] = None \<and>
   compute_changes_quiz (\<lambda>s. if s = [CHR 0xD9, CHR 0xA3] then Some 3 else None) rev
       [(''10'', [])] [(''20'', []), ([CHR 0x1C, CHR ''5''], [])] = Inl ValueError"
proof -
  let ?u = "(\<lambda>s. if s = [CHR 0xD9, CHR 0xA3] then Some 3 else None)"
  have c: "compute_changes_quiz ?u rev
       [(''10'', [])] [(''20'', []), (''10'', []), ([CHR 0xD9, CHR 0xA3], []), ('' 7'', [])]
     = Inr ([[CHR 0xD9, CHR 0xA3], '' 7'', ''20''], [], [])"
    by code_simp
  have m: "map (\<lambda>k. the (py_int ?u k)) [[CHR 0xD9, CHR 0xA3], '' 7'', ''20''] = [3, 7, 20]"
    by code_simp
  have k: "\<forall>k \<in> set (dict_keys [(''10'', [])]) \<union>
               set (dict_keys [(''20'', []), (''10'', []), ([CHR 0xD9, CHR 0xA3], []), ('' 7'', [])]).
             py_int ?u k \<noteq> None"
    by code_simp
  have x: "py_int ?u [CHR 0x1C, CHR ''5''] = None"
    by code_simp
  then have b: "\<exists>k \<in> set (dict_keys [(''10'', [])]) \<union>
                   set (dict_keys [(''20'', []), ([CHR 0x1C, CHR ''5''], [])]).
             py_int ?u k = None"
    by (simp add: dict_keys_def)
  from compute_changes_numeric_order [OF set_order_rev, where int_unicode = ?u
      and old_idx = "[(''10'', [])]"
      and new_idx = "[(''20'', []), (''10'', []), ([CHR 0xD9, CHR 0xA3], []), ('' 7'', [])]"]
    k c
  have "sorted (map (\<lambda>k. the (py_int ?u k)) [[CHR 0xD9, CHR 0xA3], '' 7'', ''20''])"
    by auto
  moreover from compute_changes_numeric_order [OF set_order_rev, where int_unicode = ?u
      and old_idx = "[(''10'', [])]"
      and new_idx = "[(''20'', []), ([CHR 0x1C, CHR ''5''], [])]"] b
  have "compute_changes_quiz ?u rev
       [(''10'', [])] [(''20'', []), ([CHR 0x1C, CHR ''5''], [])] = Inl ValueError"
    by blast
  ultimately show ?thesis
    using c m x set_order_rev by simp
qed

lemma canonical_ids_parse:
  "canonical_ids S \<Longrightarrow> k \<in> set (dict_keys S) \<Longrightarrow> py_int int_unicode k \<noteq> None"
  by (auto simp: canonical_ids_def list_all_iff dest: canonical_id_parses simp del: not_None_eq)

lemma canonical_parse_both:
  "canonical_ids A \<Longrightarrow> canonical_ids B \<Longrightarrow>
     list_all (\<lambda>k. py_int int_unicode k \<noteq> None) (dict_keys A @ dict_keys B)"
  unfolding list_all_iff using canonical_ids_parse by auto

text \<open>
  C2. The diff of a canonical snapshot with itself is the empty change-set: nothing
  added, nothing removed, nothing changed.
\<close>

theorem diff_self_empty:
  assumes "set_order iter" and "canonical_ids S"
  shows "compute_changes_quiz int_unicode iter S S = Inr ([], [], [])"
proof -
  have d: "set_diff (dict_keys S) (dict_keys S) = []"
    by (simp add: set_diff_def)
  have "filter (\<lambda>q. list_diff iter (the (map_of S q)) (the (map_of S q)) \<noteq> []) qs = []" for qs
    by (simp add: list_diff_self [OF assms(1)])
  then show ?thesis
    unfolding compute_ok [OF assms(1) canonical_parse_both [OF assms(2) assms(2)]]
    by (simp add: d set_order_Nil [OF assms(1)])
qed

theorem diff_self_empty_witness:
  "set_order rev \<and>
   canonical_ids [(''10'', [[(''title'', SStr ''A''), (''base'', SBool True)]]), (''3'', [])] \<and>
   compute_changes_quiz (\<lambda>s. None) rev
     [(''10'', [[(''title'', SStr ''A''), (''base'', SBool True)]]), (''3'', [])]
     [(''10'', [[(''title'', SStr ''A''), (''base'', SBool True)]]), (''3'', [])] = Inr ([], [], [])"
proof -
  have c: "canonical_ids [(''10'', [[(''title'', SStr ''A''), (''base'', SBool True)]]), (''3'', [])]"
    by code_simp
  from diff_self_empty [OF set_order_rev c, where int_unicode = "\<lambda>s. None"] c set_order_rev
  show ?thesis by simp
qed

text \<open>
  C6. For canonical snapshots \<open>A\<close> and \<open>B\<close>, whatever the orders in which the two
  calls iterate their sets: the added list of the diff from \<open>A\<close> to \<open>B\<close> is the
  removed list of the diff from \<open>B\<close> to \<open>A\<close>, and the removed list of the first is
  the added list of the second.
\<close>

theorem added_removed_symmetry:
  assumes "set_order iter1" and "set_order iter2"
    and "canonical_ids A" and "canonical_ids B"
  shows "\<exists>added removed changed1 changed2.
     compute_changes_quiz int_unicode iter1 A B = Inr (added, removed, changed1) \<and>
     compute_changes_quiz int_unicode iter2 B A = Inr (removed, added, changed2)"
proof -
  let ?K = "\<lambda>x. the (py_int int_unicode x)"
  have sym: "sort_key ?K (iter1 (set_diff (dict_keys X) (dict_keys Y))) =
             sort_key ?K (iter2 (set_diff (dict_keys X) (dict_keys Y)))"
    if "canonical_ids X" for X Y :: snapshot
  proof (rule sort_key_inj_key_eq)
    show "mset (iter1 (set_diff (dict_keys X) (dict_keys Y))) =
          mset (sort_key ?K (iter2 (set_diff (dict_keys X) (dict_keys Y))))"
      using assms(1,2) by (simp add: set_order_def)
    show "inj_on ?K (set (iter1 (set_diff (dict_keys X) (dict_keys Y))))"
      using that
      by (auto simp: inj_on_def set_order_set [OF assms(1)] set_diff_def canonical_ids_def
          list_all_iff intro: canonical_id_inj)
    show "sorted (map ?K (sort_key ?K (iter2 (set_diff (dict_keys X) (dict_keys Y)))))"
      by simp
  qed
  show ?thesis
    unfolding compute_ok [OF assms(1) canonical_parse_both [OF assms(3) assms(4)]]
      compute_ok [OF assms(2) canonical_parse_both [OF assms(4) assms(3)]]
    using sym [OF assms(3), of B] sym [OF assms(4), of A] by simp
qed

theorem added_removed_symmetry_witness:
  "set_order rev \<and> set_order (\<lambda>xs. xs) \<and>
   canonical_ids [(''10'', []), (''7'', [])] \<and>
   canonical_ids [(''20'', []), (''10'', []), (''3'', [])] \<and>
   compute_changes_quiz (\<lambda>s. None) rev [(''10'', []), (''7'', [])] [(''20'', []), (''10'', []), (''3'', [])]
     = Inr ([''3'', ''20''], [''7''], []) \<and>
   compute_changes_quiz (\<lambda>s. None) (\<lambda>xs. xs) [(''20'', []), (''10'', []), (''3'', [])] [(''10'', []), (''7'', [])]
     = Inr ([''7''], [''3'', ''20''], [])"
proof -
  have a: "canonical_ids [(''10'', []), (''7'', [])]"
    by code_simp
  have b: "canonical_ids [(''20'', []), (''10'', []), (''3'', [])]"
    by code_simp
  have c: "compute_changes_quiz (\<lambda>s. None) rev [(''10'', []), (''7'', [])] [(''20'', []), (''10'', []), (''3'', [])]
     = Inr ([''3'', ''20''], [''7''], [])"
    by code_simp
  from added_removed_symmetry [OF set_order_rev set_order_id a b, where int_unicode = "\<lambda>s. None"] c
  have "\<exists>ch. compute_changes_quiz (\<lambda>s. None) (\<lambda>xs. xs) [(''20'', []), (''10'', []), (''3'', [])] [(''10'', []), (''7'', [])]
     = Inr ([''7''], [''3'', ''20''], ch)"
    by auto
  moreover have "compute_changes_quiz (\<lambda>s. None) (\<lambda>xs. xs) [(''20'', []), (''10'', []), (''3'', [])] [(''10'', []), (''7'', [])]
     = Inr ([''7''], [''3'', ''20''], [])"
    by code_simp
  ultimately show ?thesis
    using a b c set_order_rev set_order_id by simp
qed

section \<open>The differ: changed identifiers\<close>

lemma entry_diff_both_set:
  assumes "set_order iter"
  shows "(k, ov, nv) \<in> set (entry_diff iter (Some l) (Some r)) \<longleftrightarrow>
     k \<in> set (dict_keys l) \<union> set (dict_keys r) \<and>
     ov = Scalar (entry_get l k) \<and> nv = Scalar (entry_get r k) \<and>
     \<not> py_eq (entry_get l k) (entry_get r k)"
  unfolding entry_diff_both [OF assms]
  by (auto simp: set_order_set [OF assms] set_union_set)

lemma entry_diff_both_distinct:
  assumes "set_order iter"
  shows "distinct (map fst (entry_diff iter (Some l) (Some r)))"
proof -
  have "distinct (iter (set_union (dict_keys l) (dict_keys r)))"
    using assms by (simp add: set_order_distinct set_union_def)
  then show ?thesis
    unfolding entry_diff_both [OF assms] by (simp add: comp_def)
qed

lemma list_diff_nonempty:
  assumes "set_order iter"
  shows "list_diff iter a b \<noteq> [] \<longleftrightarrow>
     (\<exists>i < max (length a) (length b). entry_diff iter (entry_at a i) (entry_at b i) \<noteq> [])"
  unfolding list_diff_eq [OF assms] by (auto simp: filter_empty_conv)

lemma list_diff_set:
  assumes "set_order iter"
  shows "(i, fd) \<in> set (list_diff iter a b) \<longleftrightarrow>
     i < max (length a) (length b) \<and> fd = entry_diff iter (entry_at a i) (entry_at b i) \<and> fd \<noteq> []"
  unfolding list_diff_eq [OF assms] by auto

lemma changed_of_common:
  assumes it: "set_order iter" and ca: "canonical_ids old_idx" and cb: "canonical_ids new_idx"
  shows "\<exists>added removed changed.
     compute_changes_quiz int_unicode iter old_idx new_idx = Inr (added, removed, changed) \<and>
     (\<forall>qid ds. (qid, ds) \<in> set changed \<longleftrightarrow>
        (\<exists>a b. map_of old_idx qid = Some a \<and> map_of new_idx qid = Some b \<and>
               ds = list_diff iter a b \<and> ds \<noteq> []))"
proof -
  let ?K = "\<lambda>x. the (py_int int_unicode x)"
  let ?LD = "\<lambda>q. list_diff iter (the (map_of old_idx q)) (the (map_of new_idx q))"
  let ?C = "map (\<lambda>q. (q, ?LD q))
     (filter (\<lambda>q. ?LD q \<noteq> []) (sort_key ?K (iter (set_inter (dict_keys old_idx) (dict_keys new_idx)))))"
  have "(qid, ds) \<in> set ?C \<longleftrightarrow>
        (\<exists>a b. map_of old_idx qid = Some a \<and> map_of new_idx qid = Some b \<and>
               ds = list_diff iter a b \<and> ds \<noteq> [])" for qid ds
  proof -
    have "(qid, ds) \<in> set ?C \<longleftrightarrow>
       qid \<in> set (dict_keys old_idx) \<and> qid \<in> set (dict_keys new_idx) \<and> ds = ?LD qid \<and> ds \<noteq> []"
      by (auto simp: set_order_set [OF it] set_inter_def)
    also have "\<dots> \<longleftrightarrow> (\<exists>a b. map_of old_idx qid = Some a \<and> map_of new_idx qid = Some b \<and>
               ds = list_diff iter a b \<and> ds \<noteq> [])"
      using map_of_None_iff_keys [of old_idx qid] map_of_None_iff_keys [of new_idx qid]
      by auto
    finally show ?thesis .
  qed
  then show ?thesis
    unfolding compute_ok [OF it canonical_parse_both [OF ca cb]] by blast
qed

text \<open>
  C1. Whatever the order in which sets are iterated. \<open>list_diff\<close> visits the positions
  below the length of the longer group in order and keeps, with its position, every
  non-empty \<open>entry_diff\<close>. Where both groups have an entry, \<open>entry_diff\<close> holds one
  pair (old value, new value) for each field name of either entry whose two values
  differ, and nothing else. Where only one group has an entry, it holds the single
  pair of the whole entry and \<^verbatim>\<open>None\<close> under the name \<open>ENTRY\<close>. For canonical
  snapshots the diff returns, and an identifier of both snapshots is in the changed
  list exactly when some position of its two groups has a non-empty \<open>entry_diff\<close>;
  it is listed there with \<open>list_diff\<close> of its two groups.
\<close>

theorem list_diff_positional:
  assumes "set_order iter"
  shows "list_diff iter a b =
       map (\<lambda>i. (i, entry_diff iter (entry_at a i) (entry_at b i)))
         (filter (\<lambda>i. entry_diff iter (entry_at a i) (entry_at b i) \<noteq> [])
            [0..<max (length a) (length b)]) \<and>
     distinct (map fst (entry_diff iter (Some l) (Some r))) \<and>
     ((k, ov, nv) \<in> set (entry_diff iter (Some l) (Some r)) \<longleftrightarrow>
        k \<in> set (dict_keys l) \<union> set (dict_keys r) \<and>
        ov = Scalar (entry_get l k) \<and> nv = Scalar (entry_get r k) \<and>
        \<not> py_eq (entry_get l k) (entry_get r k)) \<and>
     entry_diff iter (Some l) None = [(ENTRY, Dict l, Scalar SNone)] \<and>
     entry_diff iter None (Some r) = [(ENTRY, Scalar SNone, Dict r)] \<and>
     (canonical_ids old_idx \<and> canonical_ids new_idx \<longrightarrow>
        (\<exists>added removed changed.
           compute_changes_quiz int_unicode iter old_idx new_idx = Inr (added, removed, changed) \<and>
           (\<forall>qid g h. map_of old_idx qid = Some g \<and> map_of new_idx qid = Some h \<longrightarrow>
              (qid \<in> fst ` set changed \<longleftrightarrow>
                 (\<exists>i < max (length g) (length h).
                    entry_diff iter (entry_at g i) (entry_at h i) \<noteq> [])) \<and>
              (\<forall>ds. (qid, ds) \<in> set changed \<longrightarrow> ds = list_diff iter g h))))"
proof (intro conjI impI)
  show "list_diff iter a b =
       map (\<lambda>i. (i, entry_diff iter (entry_at a i) (entry_at b i)))
         (filter (\<lambda>i. entry_diff iter (entry_at a i) (entry_at b i) \<noteq> [])
            [0..<max (length a) (length b)])"
    by (rule list_diff_eq [OF assms])
next
  show "distinct (map fst (entry_diff iter (Some l) (Some r)))"
    by (rule entry_diff_both_distinct [OF assms])
next
  show "(k, ov, nv) \<in> set (entry_diff iter (Some l) (Some r)) \<longleftrightarrow>
        k \<in> set (dict_keys l) \<union> set (dict_keys r) \<and>
        ov = Scalar (entry_get l k) \<and> nv = Scalar (entry_get r k) \<and>
        \<not> py_eq (entry_get l k) (entry_get r k)"
    by (rule entry_diff_both_set [OF assms])
next
  show "entry_diff iter (Some l) None = [(ENTRY, Dict l, Scalar SNone)]"
    by (rule entry_diff_one_sided)
next
  show "entry_diff iter None (Some r) = [(ENTRY, Scalar SNone, Dict r)]"
    by (rule entry_diff_one_sided)
next
  assume c: "canonical_ids old_idx \<and> canonical_ids new_idx"
  from changed_of_common [OF assms, of old_idx new_idx] c
  obtain added removed changed where r:
    "compute_changes_quiz int_unicode iter old_idx new_idx = Inr (added, removed, changed)"
    and ch: "\<And>qid ds. (qid, ds) \<in> set changed \<longleftrightarrow>
        (\<exists>a b. map_of old_idx qid = Some a \<and> map_of new_idx qid = Some b \<and>
               ds = list_diff iter a b \<and> ds \<noteq> [])"
    by blast
  have "(qid \<in> fst ` set changed \<longleftrightarrow>
                 (\<exists>i < max (length g) (length h).
                    entry_diff iter (entry_at g i) (entry_at h i) \<noteq> [])) \<and>
              (\<forall>ds. (qid, ds) \<in> set changed \<longrightarrow> ds = list_diff iter g h)"
    if gh: "map_of old_idx qid = Some g \<and> map_of new_idx qid = Some h" for qid g h
  proof -
    have "qid \<in> fst ` set changed \<longleftrightarrow> (\<exists>ds. (qid, ds) \<in> set changed)"
      by force
    also have "\<dots> \<longleftrightarrow> list_diff iter g h \<noteq> []"
      using gh by (simp add: ch)
    finally show ?thesis
      using gh by (simp add: ch list_diff_nonempty [OF assms])
  qed
  with r show "\<exists>added removed changed.
           compute_changes_quiz int_unicode iter old_idx new_idx = Inr (added, removed, changed) \<and>
           (\<forall>qid g h. map_of old_idx qid = Some g \<and> map_of new_idx qid = Some h \<longrightarrow>
              (qid \<in> fst ` set changed \<longleftrightarrow>
                 (\<exists>i < max (length g) (length h).
                    entry_diff iter (entry_at g i) (entry_at h i) \<noteq> [])) \<and>
              (\<forall>ds. (qid, ds) \<in> set changed \<longrightarrow> ds = list_diff iter g h))"
    by blast
qed


theorem list_diff_positional_witness:
  "set_order rev \<and>
   canonical_ids [(''10'', [[(''due_at'', SStr ''2025-01-01''), (''unlock_at'', SNone), (''lock_at'', SNone), (''title'', SStr ''''), (''base'', SBool True)]])] \<and>
   canonical_ids [(''10'', [[(''due_at'', SStr ''2025-02-01''), (''unlock_at'', SNone), (''lock_at'', SNone), (''title'', SStr ''''), (''base'', SBool True)],
      [(''due_at'', SNone), (''unlock_at'', SNone), (''lock_at'', SNone), (''title'', SStr ''B''), (''base'', SBool False)]])] \<and>
   list_diff rev [[(''due_at'', SStr ''2025-01-01''), (''unlock_at'', SNone), (''lock_at'', SNone), (''title'', SStr ''''), (''base'', SBool True)]] [[(''due_at'', SStr ''2025-02-01''), (''unlock_at'', SNone), (''lock_at'', SNone), (''title'', SStr ''''), (''base'', SBool True)],
      [(''due_at'', SNone), (''unlock_at'', SNone), (''lock_at'', SNone), (''title'', SStr ''B''), (''base'', SBool False)]] = [(0, [(''due_at'', Scalar (SStr ''2025-01-01''), Scalar (SStr ''2025-02-01''))]),
      (1, [(''<entry>'', Scalar SNone, Dict [(''due_at'', SNone), (''unlock_at'', SNone), (''lock_at'', SNone), (''title'', SStr ''B''), (''base'', SBool False)])])] \<and>
   compute_changes_quiz (\<lambda>s. None) rev [(''10'', [[(''due_at'', SStr ''2025-01-01''), (''unlock_at'', SNone), (''lock_at'', SNone), (''title'', SStr ''''), (''base'', SBool True)]])] [(''10'', [[(''due_at'', SStr ''2025-02-01''), (''unlock_at'', SNone), (''lock_at'', SNone), (''title'', SStr ''''), (''base'', SBool True)],
      [(''due_at'', SNone), (''unlock_at'', SNone), (''lock_at'', SNone), (''title'', SStr ''B''), (''base'', SBool False)]])] = Inr ([], [], [(''10'', [(0, [(''due_at'', Scalar (SStr ''2025-01-01''), Scalar (SStr ''2025-02-01''))]),
      (1, [(''<entry>'', Scalar SNone, Dict [(''due_at'', SNone), (''unlock_at'', SNone), (''lock_at'', SNone), (''title'', SStr ''B''), (''base'', SBool False)])])])])"
proof -
  let ?a = "[[(''due_at'', SStr ''2025-01-01''), (''unlock_at'', SNone), (''lock_at'', SNone), (''title'', SStr ''''), (''base'', SBool True)]]"
  let ?b = "[[(''due_at'', SStr ''2025-02-01''), (''unlock_at'', SNone), (''lock_at'', SNone), (''title'', SStr ''''), (''base'', SBool True)],
      [(''due_at'', SNone), (''unlock_at'', SNone), (''lock_at'', SNone), (''title'', SStr ''B''), (''base'', SBool False)]]"
  have ca: "canonical_ids [(''10'', ?a)]" and cb: "canonical_ids [(''10'', ?b)]"
    by code_simp+
  have ld: "list_diff rev ?a ?b = [(0, [(''due_at'', Scalar (SStr ''2025-01-01''), Scalar (SStr ''2025-02-01''))]),
      (1, [(''<entry>'', Scalar SNone, Dict [(''due_at'', SNone), (''unlock_at'', SNone), (''lock_at'', SNone), (''title'', SStr ''B''), (''base'', SBool False)])])]"
    by code_simp
  note T = list_diff_positional [OF set_order_rev, where a = ?a and b = ?b and l = "[]"
      and r = "[]" and k = "[]" and ov = "Scalar SNone" and nv = "Scalar SNone"
      and int_unicode = "\<lambda>s. None" and old_idx = "[(''10'', ?a)]" and new_idx = "[(''10'', ?b)]"]
  from T [THEN conjunct2, THEN conjunct2, THEN conjunct2, THEN conjunct2, THEN conjunct2] ca cb
  obtain added removed changed where
    r: "compute_changes_quiz (\<lambda>s. None) rev [(''10'', ?a)] [(''10'', ?b)] = Inr (added, removed, changed)"
    and c0: "\<forall>qid g h. map_of [(''10'', ?a)] qid = Some g \<and> map_of [(''10'', ?b)] qid = Some h \<longrightarrow>
              (qid \<in> fst ` set changed \<longleftrightarrow>
                 (\<exists>i < max (length g) (length h).
                    entry_diff rev (entry_at g i) (entry_at h i) \<noteq> [])) \<and>
              (\<forall>ds. (qid, ds) \<in> set changed \<longrightarrow> ds = list_diff rev g h)"
    by blast
  have m: "map_of [(''10'', ?a)] ''10'' = Some ?a \<and> map_of [(''10'', ?b)] ''10'' = Some ?b"
    by simp
  from c0 [rule_format, OF m]
  have c: "\<forall>ds. (''10'', ds) \<in> set changed \<longrightarrow> ds = list_diff rev ?a ?b"
    by blast
  have "compute_changes_quiz (\<lambda>s. None) rev [(''10'', ?a)] [(''10'', ?b)] = Inr ([], [], [(''10'', [(0, [(''due_at'', Scalar (SStr ''2025-01-01''), Scalar (SStr ''2025-02-01''))]),
      (1, [(''<entry>'', Scalar SNone, Dict [(''due_at'', SNone), (''unlock_at'', SNone), (''lock_at'', SNone), (''title'', SStr ''B''), (''base'', SBool False)])])])])"
    by code_simp
  with r c ld ca cb set_order_rev show ?thesis
    by simp
qed

section \<open>The differ: shape of a diff list\<close>

text \<open>
  C10 as stated fails for entries that have a field named \<open>ENTRY\<close> themselves: the
  diff of two such entries holds the marker next to another field name, with neither
  side of its pair null.
\<close>

theorem list_diff_marker_counterexample:
  "list_diff (\<lambda>xs. xs)
      [[(''<entry>'', SInt 1), (''title'', SStr ''A'')]]
      [[(''<entry>'', SInt 2), (''title'', SStr ''B'')]]
    = [(0, [(''<entry>'', Scalar (SInt 1), Scalar (SInt 2)),
            (''title'', Scalar (SStr ''A''), Scalar (SStr ''B''))])] \<and>
   ENTRY = ''<entry>''"
  by code_simp

lemma val_eq_refl: "val_eq x x"
  by (cases x) (simp_all add: val_eq_def py_eq_refl dict_eq_refl)

lemma entry_diff_in_range:
  assumes "set_order iter" and "i < max (length a) (length b)"
  shows "(i < length a \<and> i < length b \<and>
            entry_diff iter (entry_at a i) (entry_at b i) = entry_diff iter (Some (a ! i)) (Some (b ! i))) \<or>
         (i < length a \<and> \<not> i < length b \<and>
            entry_diff iter (entry_at a i) (entry_at b i) = [(ENTRY, Dict (a ! i), Scalar SNone)]) \<or>
         (\<not> i < length a \<and> i < length b \<and>
            entry_diff iter (entry_at a i) (entry_at b i) = [(ENTRY, Scalar SNone, Dict (b ! i))])"
  using assms(2) by (auto simp: entry_at_def entry_diff_one_sided)

lemma entry_diff_pairs_differ:
  assumes "set_order iter" and "i < max (length a) (length b)"
    and "(k, ov, nv) \<in> set (entry_diff iter (entry_at a i) (entry_at b i))"
  shows "\<not> val_eq ov nv"
  using entry_diff_in_range [OF assms(1,2)] assms(3)
  by (auto simp: entry_diff_both_set [OF assms(1)] val_eq_def)

lemma entry_diff_distinct:
  assumes "set_order iter" and "i < max (length a) (length b)"
  shows "distinct (map fst (entry_diff iter (entry_at a i) (entry_at b i)))"
  using entry_diff_in_range [OF assms(1,2)]
  by (auto simp: entry_diff_both_distinct [OF assms(1)])

lemma entry_diff_marker:
  assumes "set_order iter" and "i < max (length a) (length b)"
    and "\<forall>e \<in> set a \<union> set b. ENTRY \<notin> set (dict_keys e)"
    and "ENTRY \<in> fst ` set (entry_diff iter (entry_at a i) (entry_at b i))"
  shows "\<exists>ov nv. entry_diff iter (entry_at a i) (entry_at b i) = [(ENTRY, ov, nv)] \<and>
           (ov = Scalar SNone) \<noteq> (nv = Scalar SNone)"
proof -
  from entry_diff_in_range [OF assms(1,2)] consider
      (both) "i < length a" "i < length b"
        "entry_diff iter (entry_at a i) (entry_at b i) = entry_diff iter (Some (a ! i)) (Some (b ! i))"
    | (left) "entry_diff iter (entry_at a i) (entry_at b i) = [(ENTRY, Dict (a ! i), Scalar SNone)]"
    | (right) "entry_diff iter (entry_at a i) (entry_at b i) = [(ENTRY, Scalar SNone, Dict (b ! i))]"
    by blast
  then show ?thesis
  proof cases
    case both
    from assms(4) obtain ov nv where
      "(ENTRY, ov, nv) \<in> set (entry_diff iter (Some (a ! i)) (Some (b ! i)))"
      unfolding both(3) by force
    then have "ENTRY \<in> set (dict_keys (a ! i)) \<union> set (dict_keys (b ! i))"
      by (simp add: entry_diff_both_set [OF assms(1)])
    moreover have "a ! i \<in> set a" "b ! i \<in> set b"
      using both(1,2) by simp_all
    ultimately show ?thesis using assms(3) by blast
  next
    case left
    then show ?thesis by simp
  next
    case right
    then show ?thesis by simp
  qed
qed

text \<open>
  C10, amended. Whatever the order in which sets are iterated, the result of
  \<open>list_diff\<close> is well formed: its positions are strictly increasing and below the
  length of the longer list; every diff kept is non-empty, names each field once, and
  each of its pairs holds two values that differ (by Python's \<^verbatim>\<open>==\<close>, hence also as
  values). When no entry of either list has a field named \<open>ENTRY\<close>, a diff that
  holds the marker \<open>ENTRY\<close> holds nothing else, and exactly one side of its pair is
  \<^verbatim>\<open>None\<close>.
\<close>

theorem list_diff_well_formed:
  assumes "set_order iter"
  shows "sorted_wrt (<) (map fst (list_diff iter a b)) \<and>
     (\<forall>(i, fd) \<in> set (list_diff iter a b).
        i < max (length a) (length b) \<and> fd \<noteq> [] \<and> distinct (map fst fd) \<and>
        (\<forall>(k, ov, nv) \<in> set fd. \<not> val_eq ov nv \<and> ov \<noteq> nv)) \<and>
     ((\<forall>e \<in> set a \<union> set b. ENTRY \<notin> set (dict_keys e)) \<longrightarrow>
        (\<forall>(i, fd) \<in> set (list_diff iter a b).
           ENTRY \<in> fst ` set fd \<longrightarrow>
             (\<exists>ov nv. fd = [(ENTRY, ov, nv)] \<and> (ov = Scalar SNone) \<noteq> (nv = Scalar SNone))))"
proof (intro conjI impI ballI)
  have "map fst (list_diff iter a b) =
      filter (\<lambda>i. entry_diff iter (entry_at a i) (entry_at b i) \<noteq> []) [0..<max (length a) (length b)]"
    unfolding list_diff_eq [OF assms] by (simp add: comp_def)
  then show "sorted_wrt (<) (map fst (list_diff iter a b))"
    by (simp add: sorted_wrt_filter)
next
  fix x assume x: "x \<in> set (list_diff iter a b)"
  obtain i fd where xi: "x = (i, fd)" by (cases x)
  from x [unfolded xi list_diff_set [OF assms]] have i: "i < max (length a) (length b)"
    and fd: "fd = entry_diff iter (entry_at a i) (entry_at b i)" and ne: "fd \<noteq> []"
    by blast+
  have "\<not> val_eq ov nv \<and> ov \<noteq> nv" if "(k, ov, nv) \<in> set fd" for k ov nv
    using entry_diff_pairs_differ [OF assms i, of k ov nv] that val_eq_refl [of ov]
    unfolding fd by auto
  then show "case x of (i, fd) \<Rightarrow>
        i < max (length a) (length b) \<and> fd \<noteq> [] \<and> distinct (map fst fd) \<and>
        (\<forall>(k, ov, nv) \<in> set fd. \<not> val_eq ov nv \<and> ov \<noteq> nv)"
    using i ne entry_diff_distinct [OF assms i] unfolding xi fd by auto
next
  fix x
  assume h: "\<forall>e \<in> set a \<union> set b. ENTRY \<notin> set (dict_keys e)"
    and x: "x \<in> set (list_diff iter a b)"
  obtain i fd where xi: "x = (i, fd)" by (cases x)
  from x [unfolded xi list_diff_set [OF assms]] have i: "i < max (length a) (length b)"
    and fd: "fd = entry_diff iter (entry_at a i) (entry_at b i)"
    by blast+
  show "case x of (i, fd) \<Rightarrow>
           ENTRY \<in> fst ` set fd \<longrightarrow>
             (\<exists>ov nv. fd = [(ENTRY, ov, nv)] \<and> (ov = Scalar SNone) \<noteq> (nv = Scalar SNone))"
    using entry_diff_marker [OF assms i h] unfolding xi fd by simp
qed


theorem list_diff_well_formed_witness:
  "set_order rev \<and>
   ENTRY \<notin> set (dict_keys [(''due_at'', SNone), (''unlock_at'', SNone), (''lock_at'', SNone), (''title'', SStr ''HW''), (''base'', SBool True)]) \<and>
   ENTRY \<notin> set (dict_keys [(''due_at'', SStr ''2025-03-01''), (''unlock_at'', SNone), (''lock_at'', SNone), (''title'', SStr ''HW''), (''base'', SBool False)]) \<and>
   ENTRY \<notin> set (dict_keys [(''due_at'', SNone), (''unlock_at'', SNone), (''lock_at'', SNone), (''title'', SStr ''Quiz''), (''base'', SInt 1)]) \<and>
   list_diff rev [[(''due_at'', SNone), (''unlock_at'', SNone), (''lock_at'', SNone), (''title'', SStr ''HW''), (''base'', SBool True)],
      [(''due_at'', SStr ''2025-03-01''), (''unlock_at'', SNone), (''lock_at'', SNone), (''title'', SStr ''HW''), (''base'', SBool False)]] [[(''due_at'', SNone), (''unlock_at'', SNone), (''lock_at'', SNone), (''title'', SStr ''Quiz''), (''base'', SInt 1)]] = [(0, [(''title'', Scalar (SStr ''HW''), Scalar (SStr ''Quiz''))]),
      (1, [(''<entry>'', Dict [(''due_at'', SStr ''2025-03-01''), (''unlock_at'', SNone), (''lock_at'', SNone), (''title'', SStr ''HW''), (''base'', SBool False)], Scalar SNone)])] \<and>
   sorted_wrt (<) (map fst (list_diff rev [[(''due_at'', SNone), (''unlock_at'', SNone), (''lock_at'', SNone), (''title'', SStr ''HW''), (''base'', SBool True)],
      [(''due_at'', SStr ''2025-03-01''), (''unlock_at'', SNone), (''lock_at'', SNone), (''title'', SStr ''HW''), (''base'', SBool False)]] [[(''due_at'', SNone), (''unlock_at'', SNone), (''lock_at'', SNone), (''title'', SStr ''Quiz''), (''base'', SInt 1)]])) \<and>
   (\<exists>ov nv. [(''<entry>'', Dict [(''due_at'', SStr ''2025-03-01''), (''unlock_at'', SNone), (''lock_at'', SNone), (''title'', SStr ''HW''), (''base'', SBool False)], Scalar SNone)] = [(ENTRY, ov, nv)] \<and>
      (ov = Scalar SNone) \<noteq> (nv = Scalar SNone))"
proof -
  let ?a = "[[(''due_at'', SNone), (''unlock_at'', SNone), (''lock_at'', SNone), (''title'', SStr ''HW''), (''base'', SBool True)],
      [(''due_at'', SStr ''2025-03-01''), (''unlock_at'', SNone), (''lock_at'', SNone), (''title'', SStr ''HW''), (''base'', SBool False)]]"
  let ?b = "[[(''due_at'', SNone), (''unlock_at'', SNone), (''lock_at'', SNone), (''title'', SStr ''Quiz''), (''base'', SInt 1)]]"
  have k: "ENTRY \<notin> set (dict_keys [(''due_at'', SNone), (''unlock_at'', SNone), (''lock_at'', SNone), (''title'', SStr ''HW''), (''base'', SBool True)])"
    "ENTRY \<notin> set (dict_keys [(''due_at'', SStr ''2025-03-01''), (''unlock_at'', SNone), (''lock_at'', SNone), (''title'', SStr ''HW''), (''base'', SBool False)])"
    "ENTRY \<notin> set (dict_keys [(''due_at'', SNone), (''unlock_at'', SNone), (''lock_at'', SNone), (''title'', SStr ''Quiz''), (''base'', SInt 1)])"
    by code_simp+
  then have h: "\<forall>e \<in> set ?a \<union> set ?b. ENTRY \<notin> set (dict_keys e)"
    by simp
  have ld: "list_diff rev ?a ?b = [(0, [(''title'', Scalar (SStr ''HW''), Scalar (SStr ''Quiz''))]),
      (1, [(''<entry>'', Dict [(''due_at'', SStr ''2025-03-01''), (''unlock_at'', SNone), (''lock_at'', SNone), (''title'', SStr ''HW''), (''base'', SBool False)], Scalar SNone)])]"
    by code_simp
  let ?fd = "[(''<entry>'', Dict [(''due_at'', SStr ''2025-03-01''), (''unlock_at'', SNone), (''lock_at'', SNone), (''title'', SStr ''HW''), (''base'', SBool False)], Scalar SNone)]"
  from list_diff_well_formed [OF set_order_rev, of ?a ?b] h
  have w: "sorted_wrt (<) (map fst (list_diff rev ?a ?b))"
    and m: "\<forall>(i, fd) \<in> set (list_diff rev ?a ?b).
           ENTRY \<in> fst ` set fd \<longrightarrow>
             (\<exists>ov nv. fd = [(ENTRY, ov, nv)] \<and> (ov = Scalar SNone) \<noteq> (nv = Scalar SNone))"
    by blast+
  have "(1, ?fd) \<in> set (list_diff rev ?a ?b)"
    unfolding ld by simp
  with m have "ENTRY \<in> fst ` set ?fd \<longrightarrow>
      (\<exists>ov nv. ?fd = [(ENTRY, ov, nv)] \<and> (ov = Scalar SNone) \<noteq> (nv = Scalar SNone))"
    by fast
  then have "\<exists>ov nv. ?fd = [(ENTRY, ov, nv)] \<and> (ov = Scalar SNone) \<noteq> (nv = Scalar SNone)"
    by (simp add: ENTRY_def)
  with w k ld set_order_rev show ?thesis
    by simp
qed

section \<open>The renderer: shape of a report\<close>

lemma position_loop:
  "foldl (\<lambda>lines d. lines @ [f d]) acc ds = acc @ map f ds"
  by (induction ds arbitrary: acc) simp_all

lemma render_quiz_eq:
  "render_quiz dumps str_dict lines (qid, ds) =
     lines @ (''- quiz `'' @ qid @ ''`'') # map (render_position dumps str_dict) ds"
  by (simp add: render_quiz_def position_loop)

lemma quiz_loop:
  "foldl (render_quiz dumps str_dict) acc cs =
     acc @ concat (map (\<lambda>(qid, ds). (''- quiz `'' @ qid @ ''`'') # map (render_position dumps str_dict) ds) cs)"
proof (induction cs arbitrary: acc)
  case Nil
  then show ?case by simp
next
  case (Cons c cs)
  obtain qid ds where c: "c = (qid, ds)" by (cases c)
  show ?case
    by (simp add: c Cons.IH render_quiz_eq)
qed

lemma header_not_Nil: "header course_id \<noteq> []"
  by (simp add: header_def)


lemma render_lines:
  "render_change_message_quiz dumps str_dict added_qids removed_qids changed_qids course_id =
     (let lines =
        (if added_qids = [] then [] else [added_line added_qids]) @
        (if removed_qids = [] then [] else [removed_line removed_qids]) @
        (if changed_qids = [] then []
         else CHANGED_LABEL #
              concat (map (\<lambda>(qid, ds). (''- quiz `'' @ qid @ ''`'') #
                             map (render_position dumps str_dict) ds) changed_qids))
      in if lines = [] then [] else header course_id @ NL @ py_join NL lines)"
  by (simp add: render_change_message_quiz_def Let_def quiz_loop)

lemma py_join_Cons: "py_join sep (x # xs) = x @ concat (map (\<lambda>l. sep @ l) xs)"
  by (induction xs arbitrary: x) simp_all

lemma added_line_eq:
  "added_line (q # qs) =
     ''**'' @ [CHR 0xE2, CHR 0x9E, CHR 0x95] @ '' Quizzes added (new overrides):** `'' @ q @ ''`'' @
     concat (map (\<lambda>q. '', `'' @ q @ ''`'') qs)"
  by (simp add: added_line_def ADDED_LABEL_def py_join_Cons backticked_def comp_def)

lemma removed_line_eq:
  "removed_line (q # qs) =
     ''**'' @ [CHR 0xE2, CHR 0x9E, CHR 0x96] @ '' Quizzes removed (overrides gone):** `'' @ q @ ''`'' @
     concat (map (\<lambda>q. '', `'' @ q @ ''`'') qs)"
  by (simp add: removed_line_def REMOVED_LABEL_def py_join_Cons backticked_def comp_def)

lemma value_text_eq:
  "py_format str_dict (fmt_dt v) =
     (case v of
        Scalar s \<Rightarrow> if truthy s then py_str s else ''null''
      | Dict e \<Rightarrow> if e \<noteq> [] then str_dict e else ''null'')"
  by (simp add: py_format_def fmt_dt_def truthy_val_def split: pyval.splits)

lemma render_field_eq:
  "render_field str_dict (k, ov, nv) =
     k @ '': `'' @
     (case ov of
        Scalar s \<Rightarrow> if k \<in> {''due_at'', ''unlock_at'', ''lock_at''} \<and> \<not> truthy s then ''null'' else py_str s
      | Dict e \<Rightarrow> if k \<in> {''due_at'', ''unlock_at'', ''lock_at''} \<and> e = [] then ''null'' else str_dict e) @
     ''` '' @ [CHR 0xE2, CHR 0x86, CHR 0x92] @ '' `'' @
     (case nv of
        Scalar s \<Rightarrow> if k \<in> {''due_at'', ''unlock_at'', ''lock_at''} \<and> \<not> truthy s then ''null'' else py_str s
      | Dict e \<Rightarrow> if k \<in> {''due_at'', ''unlock_at'', ''lock_at''} \<and> e = [] then ''null'' else str_dict e) @
     ''`''"
proof (cases "k \<in> {''due_at'', ''unlock_at'', ''lock_at''}")
  case True
  then have "render_field str_dict (k, ov, nv) =
      k @ '': `'' @ py_format str_dict (fmt_dt ov) @ ''` '' @ ARROW @ '' `'' @
             py_format str_dict (fmt_dt nv) @ ''`''"
    unfolding render_field_def by (simp del: insert_iff)
  with True show ?thesis
    unfolding value_text_eq ARROW_def by (simp split: pyval.splits del: insert_iff)
next
  case False
  then have "render_field str_dict (k, ov, nv) =
      k @ '': `'' @ py_format str_dict ov @ ''` '' @ ARROW @ '' `'' @
             py_format str_dict nv @ ''`''"
    unfolding render_field_def by (simp del: insert_iff)
  with False show ?thesis
    unfolding py_format_def ARROW_def by (simp split: pyval.splits del: insert_iff)
qed


lemma render_field_fun:
  "render_field str_dict =
     (\<lambda>(k, ov, nv).
        k @ '': `'' @ (\<lambda>k v. case v of
          Scalar s \<Rightarrow>
            if k \<in> {''due_at'', ''unlock_at'', ''lock_at''} \<and> \<not> truthy s then ''null'' else py_str s
        | Dict e \<Rightarrow>
            if k \<in> {''due_at'', ''unlock_at'', ''lock_at''} \<and> e = [] then ''null'' else str_dict e) k ov @ ''` '' @ [CHR 0xE2, CHR 0x86, CHR 0x92] @ '' `'' @ (\<lambda>k v. case v of
          Scalar s \<Rightarrow>
            if k \<in> {''due_at'', ''unlock_at'', ''lock_at''} \<and> \<not> truthy s then ''null'' else py_str s
        | Dict e \<Rightarrow>
            if k \<in> {''due_at'', ''unlock_at'', ''lock_at''} \<and> e = [] then ''null'' else str_dict e) k nv @ ''`'')"
  by (rule ext) (simp add: render_field_eq split: prod.splits)

lemma render_position_fun:
  "render_position dumps str_dict =
     (\<lambda>(idx, fd).
        ''   '' @ [CHR 0xE2, CHR 0x80, CHR 0xA2] @ '' '' @
        (case map_of fd ''<entry>'' of
           Some (ov, nv) \<Rightarrow>
             ''entry #'' @ str_nat idx @ '': '' @ dumps ov @ '' '' @
             [CHR 0xE2, CHR 0x86, CHR 0x92] @ '' '' @ dumps nv
         | None \<Rightarrow>
             (case fd of
                [] \<Rightarrow> []
              | f # fs \<Rightarrow>
                  render_field str_dict f @
                  concat (map (\<lambda>g. ''; '' @ render_field str_dict g) fs))))"
  by (rule ext)
     (simp add: render_position_def position_loop py_join_Cons ENTRY_def BULLET_def ARROW_def
        comp_def split: prod.splits option.splits list.splits)


lemma join_lines:
  "lines \<noteq> [] \<Longrightarrow> NL @ py_join NL lines = concat (map (\<lambda>line. [CHR 0x0A] @ line) lines)"
  by (cases lines) (simp_all add: py_join_Cons NL_def)

lemma render_nonempty:
  assumes "\<not> (added_qids = [] \<and> removed_qids = [] \<and> changed_qids = [])"
  shows "render_change_message_quiz dumps str_dict added_qids removed_qids changed_qids course_id =
     header course_id @
     concat (map (\<lambda>line. [CHR 0x0A] @ line)
       ((if added_qids = [] then [] else [added_line added_qids]) @
        (if removed_qids = [] then [] else [removed_line removed_qids]) @
        (if changed_qids = [] then []
         else CHANGED_LABEL #
              concat (map (\<lambda>(qid, ds). (''- quiz `'' @ qid @ ''`'') #
                             map (render_position dumps str_dict) ds) changed_qids))))"
proof -
  let ?lines = "(if added_qids = [] then [] else [added_line added_qids]) @
        (if removed_qids = [] then [] else [removed_line removed_qids]) @
        (if changed_qids = [] then []
         else CHANGED_LABEL #
              concat (map (\<lambda>(qid, ds). (''- quiz `'' @ qid @ ''`'') #
                             map (render_position dumps str_dict) ds) changed_qids))"
  have ne: "?lines \<noteq> []" using assms by auto
  have "render_change_message_quiz dumps str_dict added_qids removed_qids changed_qids course_id =
      header course_id @ NL @ py_join NL ?lines"
    using assms by (auto simp: render_lines Let_def)
  then show ?thesis
    unfolding join_lines [OF ne] .
qed

text \<open>
  C4. The rendered text is empty exactly when nothing was added, removed or changed.
  Otherwise it is the header line, which names the course, followed by the lines of the
  added block, of the removed block and of the changed block, in that order, each line
  after a line break. The added block is one line: its label and the added
  identifiers, each between backquotes, separated by commas; the removed block
  likewise; a block of an empty component has no line. The changed block is its
  label, then for every changed quiz a line that names it and a line per position:
  the whole-entry pair as \<open>dumps\<close> prints it, or else the fields, a timestamp field
  with \<^verbatim>\<open>null\<close> for a value that is not true.
\<close>

theorem render_structure:
  "let
     timestamps = {''due_at'', ''unlock_at'', ''lock_at''};
     arrow = [CHR 0xE2, CHR 0x86, CHR 0x92];
     value_text = (\<lambda>k v.
       case v of
         Scalar s \<Rightarrow> if k \<in> timestamps \<and> \<not> truthy s then ''null'' else py_str s
       | Dict e \<Rightarrow> if k \<in> timestamps \<and> e = [] then ''null'' else str_dict e);
     field_text = (\<lambda>(k, ov, nv).
       k @ '': `'' @ value_text k ov @ ''` '' @ arrow @ '' `'' @ value_text k nv @ ''`'');
     position_line = (\<lambda>(idx, fd).
       ''   '' @ [CHR 0xE2, CHR 0x80, CHR 0xA2] @ '' '' @
       (case map_of fd ''<entry>'' of
          Some (ov, nv) \<Rightarrow>
            ''entry #'' @ str_nat idx @ '': '' @ dumps ov @ '' '' @ arrow @ '' '' @ dumps nv
        | None \<Rightarrow>
            (case fd of
               [] \<Rightarrow> []
             | f # fs \<Rightarrow> field_text f @ concat (map (\<lambda>g. ''; '' @ field_text g) fs))));
     quiz_lines = (\<lambda>(qid, ds). (''- quiz `'' @ qid @ ''`'') # map position_line ds);
     added_block =
       (case added_qids of
          [] \<Rightarrow> []
        | q # qs \<Rightarrow>
            [''**'' @ [CHR 0xE2, CHR 0x9E, CHR 0x95] @ '' Quizzes added (new overrides):** `'' @
             q @ ''`'' @ concat (map (\<lambda>q. '', `'' @ q @ ''`'') qs)]);
     removed_block =
       (case removed_qids of
          [] \<Rightarrow> []
        | q # qs \<Rightarrow>
            [''**'' @ [CHR 0xE2, CHR 0x9E, CHR 0x96] @ '' Quizzes removed (overrides gone):** `'' @
             q @ ''`'' @ concat (map (\<lambda>q. '', `'' @ q @ ''`'') qs)]);
     changed_block =
       (case changed_qids of
          [] \<Rightarrow> []
        | c # cs \<Rightarrow>
            (''**'' @ [CHR 0xE2, CHR 0x9C, CHR 0x8F, CHR 0xEF, CHR 0xB8, CHR 0x8F] @
             '' Overrides changed:**'') #
            concat (map quiz_lines (c # cs)));
     report =
       render_change_message_quiz dumps str_dict added_qids removed_qids changed_qids course_id
   in
     (report = [] \<longleftrightarrow> added_qids = [] \<and> removed_qids = [] \<and> changed_qids = []) \<and>
     (\<not> (added_qids = [] \<and> removed_qids = [] \<and> changed_qids = []) \<longrightarrow>
        report =
          ''@everyone '' @ [CHR 0xF0, CHR 0x9F, CHR 0x93, CHR 0xA3] @
          '' Canvas changes detected for course `'' @ course_id @
          ''` (quiz_assignment_overrides)'' @
          concat (map (\<lambda>line. [CHR 0x0A] @ line) (added_block @ removed_block @ changed_block)))"
proof -
  have e: "render_change_message_quiz dumps str_dict added_qids removed_qids changed_qids course_id = [] \<longleftrightarrow>
      added_qids = [] \<and> removed_qids = [] \<and> changed_qids = []"
    by (simp add: render_lines Let_def header_not_Nil)
  have a: "(if added_qids = [] then [] else [added_line added_qids]) =
      (case added_qids of
          [] \<Rightarrow> []
        | q # qs \<Rightarrow>
            [''**'' @ [CHR 0xE2, CHR 0x9E, CHR 0x95] @ '' Quizzes added (new overrides):** `'' @
             q @ ''`'' @ concat (map (\<lambda>q. '', `'' @ q @ ''`'') qs)])"
    by (cases added_qids) (simp_all add: added_line_eq)
  have r: "(if removed_qids = [] then [] else [removed_line removed_qids]) =
       (case removed_qids of
          [] \<Rightarrow> []
        | q # qs \<Rightarrow>
            [''**'' @ [CHR 0xE2, CHR 0x9E, CHR 0x96] @ '' Quizzes removed (overrides gone):** `'' @
             q @ ''`'' @ concat (map (\<lambda>q. '', `'' @ q @ ''`'') qs)])"
    by (cases removed_qids) (simp_all add: removed_line_eq)
  have c: "(if changed_qids = [] then []
         else CHANGED_LABEL #
              concat (map (\<lambda>(qid, ds). (''- quiz `'' @ qid @ ''`'') # map P ds) changed_qids)) =
       (case changed_qids of
          [] \<Rightarrow> []
        | c # cs \<Rightarrow>
            (''**'' @ [CHR 0xE2, CHR 0x9C, CHR 0x8F, CHR 0xEF, CHR 0xB8, CHR 0x8F] @
             '' Overrides changed:**'') #
            concat (map (\<lambda>(qid, ds). (''- quiz `'' @ qid @ ''`'') # map P ds) (c # cs)))"
    for P :: "nat \<times> field_diffs \<Rightarrow> string"
    by (cases changed_qids) (simp_all add: CHANGED_LABEL_def)
  show ?thesis
    unfolding Let_def
    apply (intro conjI impI)
     apply (rule e)
    subgoal premises n
      unfolding render_nonempty [OF n] a r c render_position_fun render_field_fun header_def
      by simp
    done
qed


theorem render_structure_witness:
  "render_change_message_quiz
      (\<lambda>v. case v of Scalar s \<Rightarrow> ''null'' | Dict e \<Rightarrow> ''{}'') (\<lambda>e. ''{}'') [] [] [] ''1431941'' = [] \<and>
   render_change_message_quiz
      (\<lambda>v. case v of Scalar s \<Rightarrow> ''null'' | Dict e \<Rightarrow> ''{}'') (\<lambda>e. ''{}'')
      [''3'', ''20''] [''7'']
      [(''10'', [(0, [(''due_at'', Scalar (SStr ''2025-01-01''), Scalar SNone),
                      (''title'', Scalar (SStr ''A''), Scalar (SStr ''B''))]),
                 (1, [(''<entry>'', Scalar SNone, Dict [])])])]
      ''1431941'' =
     ''@everyone '' @ [CHR 0xF0, CHR 0x9F, CHR 0x93, CHR 0xA3] @
     '' Canvas changes detected for course `1431941` (quiz_assignment_overrides)'' @ [CHR 0x0A] @
     ''**'' @ [CHR 0xE2, CHR 0x9E, CHR 0x95] @ '' Quizzes added (new overrides):** `3`, `20`'' @
     [CHR 0x0A] @
     ''**'' @ [CHR 0xE2, CHR 0x9E, CHR 0x96] @ '' Quizzes removed (overrides gone):** `7`'' @
     [CHR 0x0A] @
     ''**'' @ [CHR 0xE2, CHR 0x9C, CHR 0x8F, CHR 0xEF, CHR 0xB8, CHR 0x8F] @ '' Overrides changed:**'' @
     [CHR 0x0A] @
     ''- quiz `10`'' @ [CHR 0x0A] @
     ''   '' @ [CHR 0xE2, CHR 0x80, CHR 0xA2] @ '' due_at: `2025-01-01` '' @
     [CHR 0xE2, CHR 0x86, CHR 0x92] @ '' `null`; title: `A` '' @
     [CHR 0xE2, CHR 0x86, CHR 0x92] @ '' `B`'' @ [CHR 0x0A] @
     ''   '' @ [CHR 0xE2, CHR 0x80, CHR 0xA2] @ '' entry #1: null '' @
     [CHR 0xE2, CHR 0x86, CHR 0x92] @ '' {}''"
proof -
  have n: "str_nat (Suc 0) = ''1''"
    by (simp add: str_nat_small digit_char_def)
  from render_structure
    [where added_qids = "[]" and removed_qids = "[]" and changed_qids = "[]"
       and str_dict = "\<lambda>e. ''{}''" and course_id = "''1431941''"
       and dumps = "\<lambda>v. case v of Scalar s \<Rightarrow> ''null'' | Dict e \<Rightarrow> ''{}''"]
  have e: "render_change_message_quiz
      (\<lambda>v. case v of Scalar s \<Rightarrow> ''null'' | Dict e \<Rightarrow> ''{}'') (\<lambda>e. ''{}'') [] [] [] ''1431941'' = []"
    by (simp add: Let_def)
  from render_structure
    [where added_qids = "[''3'', ''20'']" and removed_qids = "[''7'']"
       and changed_qids =
         "[(''10'', [(0, [(''due_at'', Scalar (SStr ''2025-01-01''), Scalar SNone),
                          (''title'', Scalar (SStr ''A''), Scalar (SStr ''B''))]),
                     (1, [(''<entry>'', Scalar SNone, Dict [])])])]"
       and str_dict = "\<lambda>e. ''{}''" and course_id = "''1431941''"
       and dumps = "\<lambda>v. case v of Scalar s \<Rightarrow> ''null'' | Dict e \<Rightarrow> ''{}''"]
  have "render_change_message_quiz
      (\<lambda>v. case v of Scalar s \<Rightarrow> ''null'' | Dict e \<Rightarrow> ''{}'') (\<lambda>e. ''{}'')
      [''3'', ''20''] [''7'']
      [(''10'', [(0, [(''due_at'', Scalar (SStr ''2025-01-01''), Scalar SNone),
                      (''title'', Scalar (SStr ''A''), Scalar (SStr ''B''))]),
                 (1, [(''<entry>'', Scalar SNone, Dict [])])])]
      ''1431941'' =
     ''@everyone '' @ [CHR 0xF0, CHR 0x9F, CHR 0x93, CHR 0xA3] @
     '' Canvas changes detected for course `1431941` (quiz_assignment_overrides)'' @ [CHR 0x0A] @
     ''**'' @ [CHR 0xE2, CHR 0x9E, CHR 0x95] @ '' Quizzes added (new overrides):** `3`, `20`'' @
     [CHR 0x0A] @
     ''**'' @ [CHR 0xE2, CHR 0x9E, CHR 0x96] @ '' Quizzes removed (overrides gone):** `7`'' @
     [CHR 0x0A] @
     ''**'' @ [CHR 0xE2, CHR 0x9C, CHR 0x8F, CHR 0xEF, CHR 0xB8, CHR 0x8F] @ '' Overrides changed:**'' @
     [CHR 0x0A] @
     ''- quiz `10`'' @ [CHR 0x0A] @
     ''   '' @ [CHR 0xE2, CHR 0x80, CHR 0xA2] @ '' due_at: `2025-01-01` '' @
     [CHR 0xE2, CHR 0x86, CHR 0x92] @ '' `null`; title: `A` '' @
     [CHR 0xE2, CHR 0x86, CHR 0x92] @ '' `B`'' @ [CHR 0x0A] @
     ''   '' @ [CHR 0xE2, CHR 0x80, CHR 0xA2] @ '' entry #1: null '' @
     [CHR 0xE2, CHR 0x86, CHR 0x92] @ '' {}''"
    by (simp add: Let_def n)
  with e show ?thesis by simp
qed

end
